theory Spec2Isabelle
  imports Complex_Main "HOL-Library.Char_ord" "HOL-Library.List_Lexorder" "HOL-Library.Multiset"
begin

section \<open>JavaScript values used by the build script and the site script\<close>

text \<open>
  Strings are \<^typ>\<open>string\<close>: ASCII text unit by unit, a character outside ASCII as the
  bytes of its UTF-8 form. Operations that look at single units (\<open>split\<close>, spread,
  iteration) are exact on ASCII text. A parsed JSON document is a \<open>json\<close> value; an object
  is the list of its own properties in property order (keys distinct, as \<open>JSON.parse\<close>
  leaves them). A property that is absent reads as \<open>undefined\<close>, written \<open>None\<close>.
\<close>

datatype json =
    JNull
  | JBool bool
  | JNum rat
  | JStr string
  | JArr "json list"
  | JObj "(string \<times> json) list"

datatype error = TypeError | RangeError

text \<open>\<open>ToBoolean\<close>: what \<open>if (v)\<close>, \<open>!v\<close> and \<open>v || w\<close> test.\<close>

fun truthy :: "json option \<Rightarrow> bool" where
  "truthy None = False"
| "truthy (Some JNull) = False"
| "truthy (Some (JBool b)) = b"
| "truthy (Some (JNum r)) = (r \<noteq> 0)"
| "truthy (Some (JStr s)) = (s \<noteq> [])"
| "truthy (Some (JArr xs)) = True"
| "truthy (Some (JObj fs)) = True"

subsection \<open>Numbers\<close>

text \<open>
  A Number is \<open>NaN\<close>, an infinity or a finite value. A finite value is kept as the exact
  rational: overflow to an infinity is modelled, rounding to 53 bits is not. On integers
  of at most fifteen digits, and on the sums and quotients taken of them below, the two agree
  in every comparison made.
\<close>

datatype jsnum = NaN | Fin rat | PInf | NInf

definition overflowBound :: rat where
  "overflowBound = 2 ^ 1024 - 2 ^ 970"

definition clip :: "rat \<Rightarrow> jsnum" where
  "clip r = (if overflowBound \<le> r then PInf else if r \<le> - overflowBound then NInf else Fin r)"

fun numNeg :: "jsnum \<Rightarrow> jsnum" where
  "numNeg NaN = NaN"
| "numNeg (Fin r) = Fin (- r)"
| "numNeg PInf = NInf"
| "numNeg NInf = PInf"

fun numAdd :: "jsnum \<Rightarrow> jsnum \<Rightarrow> jsnum" where
  "numAdd NaN _ = NaN"
| "numAdd _ NaN = NaN"
| "numAdd PInf NInf = NaN"
| "numAdd NInf PInf = NaN"
| "numAdd PInf _ = PInf"
| "numAdd _ PInf = PInf"
| "numAdd NInf _ = NInf"
| "numAdd _ NInf = NInf"
| "numAdd (Fin a) (Fin b) = clip (a + b)"

text \<open>Division by a positive finite constant, as in \<open>m / 60\<close>.\<close>

fun numDivBy :: "jsnum \<Rightarrow> rat \<Rightarrow> jsnum" where
  "numDivBy (Fin a) k = Fin (a / k)"
| "numDivBy x k = x"

text \<open>\<open>x < k\<close> for a finite constant \<open>k\<close>; every comparison with \<open>NaN\<close> is false.\<close>

fun numLess :: "jsnum \<Rightarrow> rat \<Rightarrow> bool" where
  "numLess (Fin a) k = (a < k)"
| "numLess NInf k = True"
| "numLess PInf k = False"
| "numLess NaN k = False"

subsection \<open>\<open>Number(string)\<close>\<close>

definition isDigit :: "char \<Rightarrow> bool" where
  "isDigit c = (48 \<le> (of_char c :: nat) \<and> (of_char c :: nat) \<le> 57)"

definition digitVal :: "char \<Rightarrow> int" where
  "digitVal c = int (of_char c) - 48"

definition hexVal :: "char \<Rightarrow> int option" where
  "hexVal c = (let n = int (of_char c) in
     if 48 \<le> n \<and> n \<le> 57 then Some (n - 48)
     else if 65 \<le> n \<and> n \<le> 70 then Some (n - 55)
     else if 97 \<le> n \<and> n \<le> 102 then Some (n - 87)
     else None)"

text \<open>
  White space that \<open>Number\<close> strips from both ends (StrWhiteSpaceChar): the one-unit
  characters TAB, LF, VT, FF, CR and SP, and, in their UTF-8 form, U+00A0, U+1680,
  U+2000 to U+200A, U+2028, U+2029, U+202F, U+205F, U+3000 and U+FEFF.
\<close>

definition isWhite :: "char \<Rightarrow> bool" where
  "isWhite c = ((of_char c :: nat) \<in> {9, 10, 11, 12, 13, 32})"

definition isWhite2 :: "char \<Rightarrow> char \<Rightarrow> bool" where
  "isWhite2 a b = ((of_char a :: nat) = 194 \<and> (of_char b :: nat) = 160)"

definition isWhite3 :: "char \<Rightarrow> char \<Rightarrow> char \<Rightarrow> bool" where
  "isWhite3 a b c =
     (let x = (of_char a :: nat); y = (of_char b :: nat); z = (of_char c :: nat) in
      (x = 225 \<and> y = 154 \<and> z = 128)
      \<or> (x = 226 \<and> y = 128 \<and> ((128 \<le> z \<and> z \<le> 138) \<or> z = 168 \<or> z = 169 \<or> z = 175))
      \<or> (x = 226 \<and> y = 129 \<and> z = 159)
      \<or> (x = 227 \<and> y = 128 \<and> z = 128)
      \<or> (x = 239 \<and> y = 187 \<and> z = 191))"

text \<open>Leading white space dropped; the same for a reversed string, bytes in reverse.\<close>

fun dropWhite :: "string \<Rightarrow> string" where
  "dropWhite (a # b # c # cs) =
     (if isWhite a then dropWhite (b # c # cs)
      else if isWhite2 a b then dropWhite (c # cs)
      else if isWhite3 a b c then dropWhite cs
      else a # b # c # cs)"
| "dropWhite [a, b] =
     (if isWhite a then dropWhite [b] else if isWhite2 a b then [] else [a, b])"
| "dropWhite [a] = (if isWhite a then [] else [a])"
| "dropWhite [] = []"

fun dropWhiteRev :: "string \<Rightarrow> string" where
  "dropWhiteRev (c # b # a # cs) =
     (if isWhite c then dropWhiteRev (b # a # cs)
      else if isWhite2 b c then dropWhiteRev (a # cs)
      else if isWhite3 a b c then dropWhiteRev cs
      else c # b # a # cs)"
| "dropWhiteRev [b, a] =
     (if isWhite b then dropWhiteRev [a] else if isWhite2 a b then [] else [b, a])"
| "dropWhiteRev [a] = (if isWhite a then [] else [a])"
| "dropWhiteRev [] = []"

definition trim :: "string \<Rightarrow> string" where
  "trim s = rev (dropWhiteRev (rev (dropWhite s)))"

definition digitsVal :: "string \<Rightarrow> int" where
  "digitsVal s = foldl (\<lambda>a c. 10 * a + digitVal c) 0 s"

text \<open>Digits of a literal in base \<open>b\<close>; \<open>None\<close> when a unit is not a digit of that base.\<close>

fun radixVal :: "int \<Rightarrow> int \<Rightarrow> string \<Rightarrow> int option" where
  "radixVal b a [] = Some a"
| "radixVal b a (c # cs) =
     (case hexVal c of
        None \<Rightarrow> None
      | Some d \<Rightarrow> if d < b then radixVal b (b * a + d) cs else None)"

definition scale10 :: "int \<Rightarrow> int \<Rightarrow> rat" where
  "scale10 n e = (if 0 \<le> e then of_int n * 10 ^ nat e else of_int n / 10 ^ nat (- e))"

text \<open>The exponent part after \<open>e\<close> or \<open>E\<close>: an optional sign and at least one digit.\<close>

definition exponentPart :: "string \<Rightarrow> int option" where
  "exponentPart s =
     (let (neg, ds) = (case s of
                         c # r \<Rightarrow> if c = CHR ''-'' then (True, r)
                                  else if c = CHR ''+'' then (False, r) else (False, s)
                       | [] \<Rightarrow> (False, s))
      in if ds \<noteq> [] \<and> list_all isDigit ds
         then Some (if neg then - digitsVal ds else digitsVal ds)
         else None)"

definition unsignedDecimal :: "string \<Rightarrow> jsnum" where
  "unsignedDecimal s =
     (if s = ''Infinity'' then PInf
      else
        let ip = takeWhile isDigit s;
            r1 = dropWhile isDigit s;
            dot = (r1 \<noteq> [] \<and> hd r1 = CHR ''.'');
            fp = (if dot then takeWhile isDigit (tl r1) else []);
            r2 = (if dot then dropWhile isDigit (tl r1) else r1)
        in if ip = [] \<and> fp = [] then NaN
           else (case r2 of
                   [] \<Rightarrow> clip (scale10 (digitsVal (ip @ fp)) (- int (length fp)))
                 | c # es \<Rightarrow>
                     if c = CHR ''e'' \<or> c = CHR ''E''
                     then (case exponentPart es of
                             None \<Rightarrow> NaN
                           | Some e \<Rightarrow> clip (scale10 (digitsVal (ip @ fp)) (e - int (length fp))))
                     else NaN))"

definition radixLiteral :: "string \<Rightarrow> jsnum option" where
  "radixLiteral s =
     (case s of
        z # x # ds \<Rightarrow>
          if z = CHR ''0'' \<and> ds \<noteq> [] then
            (let b = (if x = CHR ''x'' \<or> x = CHR ''X'' then 16
                      else if x = CHR ''o'' \<or> x = CHR ''O'' then 8
                      else if x = CHR ''b'' \<or> x = CHR ''B'' then 2 else (0::int))
             in if b = 0 then None
                else (case radixVal b 0 ds of None \<Rightarrow> Some NaN | Some v \<Rightarrow> Some (clip (of_int v))))
          else None
      | _ \<Rightarrow> None)"

text \<open>\<open>Number(s)\<close> for a string \<open>s\<close> (the abstract operation StringToNumber).\<close>

definition Number :: "string \<Rightarrow> jsnum" where
  "Number s =
     (let t = trim s in
      if t = [] then Fin 0
      else (case radixLiteral t of
              Some v \<Rightarrow> v
            | None \<Rightarrow>
                if hd t = CHR ''-'' then numNeg (unsignedDecimal (tl t))
                else if hd t = CHR ''+'' then unsignedDecimal (tl t)
                else unsignedDecimal t))"

subsection \<open>\<open>String.prototype.split\<close> with a one-unit separator\<close>

fun splitOn :: "char \<Rightarrow> string \<Rightarrow> string list" where
  "splitOn sep [] = [[]]"
| "splitOn sep (c # cs) =
     (if c = sep then [] # splitOn sep cs
      else (case splitOn sep cs of
              p # ps \<Rightarrow> (c # p) # ps
            | [] \<Rightarrow> [[c]]))"

section \<open>Tag derivation\<close>

text \<open>
  \<open>const [h, m] = time.split(':').map(Number)\<close>: \<open>h\<close> is the first part, \<open>m\<close> the second
  or \<open>undefined\<close>, and \<open>undefined / 60\<close> is \<open>NaN\<close>.
\<close>

definition hourPlusMinute :: "string \<Rightarrow> jsnum" where
  "hourPlusMinute t =
     (case map Number (splitOn CHR '':'' t) of
        [] \<Rightarrow> NaN
      | [h] \<Rightarrow> numAdd h NaN
      | h # m # _ \<Rightarrow> numAdd h (numDivBy m 60))"

definition tagOfTime :: "string \<Rightarrow> string" where
  "tagOfTime t = (if numLess (hourPlusMinute t) 12 then ''sunrise'' else ''sunset'')"

text \<open>
  \<open>getTag(timeStr)\<close> of the site script. \<open>timeStr\<close> is whatever \<open>img.time\<close> holds;
  \<open>.split\<close> exists on strings only, so any other value throws.
\<close>

fun getTag :: "json option \<Rightarrow> error + string" where
  "getTag (Some (JStr t)) = Inr (tagOfTime t)"
| "getTag _ = Inl TypeError"

text \<open>\<open>deriveTag(time)\<close> of the build script: the guard \<open>if (!time)\<close>, then as \<open>getTag\<close>.\<close>

definition deriveTag :: "json option \<Rightarrow> error + string" where
  "deriveTag time = (if \<not> truthy time then Inr ''sunrise'' else getTag time)"

section \<open>The build script (Aggregator)\<close>

subsection \<open>Property reads, object spread\<close>

text \<open>
  \<open>field v k\<close> is \<open>v.k\<close> for a value \<open>v\<close> other than \<open>null\<close>, for the keys the scripts read
  (\<open>src\<close>, \<open>date\<close>, \<open>images\<close>, \<open>location\<close>, \<open>tag\<close>, \<open>time\<close>, \<open>weather\<close>, \<open>id\<close>,
  \<open>lat\<close>, \<open>lng\<close>): no prototype defines one of them, so only an object's own property
  answers. \<open>readProp\<close> adds the \<open>TypeError\<close> of reading a property of \<open>null\<close>.
\<close>

definition field :: "json \<Rightarrow> string \<Rightarrow> json option" where
  "field v k = (case v of JObj fs \<Rightarrow> map_of fs k | _ \<Rightarrow> None)"

definition readProp :: "json \<Rightarrow> string \<Rightarrow> error + json option" where
  "readProp v k = (case v of JNull \<Rightarrow> Inl TypeError | _ \<Rightarrow> Inr (field v k))"

definition digitChar :: "nat \<Rightarrow> char" where
  "digitChar d = ''0123456789'' ! d"

fun showNat :: "nat \<Rightarrow> string" where
  "showNat n = (if n < 10 then [digitChar n] else showNat (n div 10) @ [digitChar (n mod 10)])"

declare showNat.simps [simp del]

text \<open>
  \<open>{...v}\<close>: the own enumerable properties of \<open>v\<close>. An array and a string spread to their
  indexed elements, a number and a boolean to nothing.
\<close>

definition indexed :: "json list \<Rightarrow> (string \<times> json) list" where
  "indexed xs = zip (map showNat [0..<length xs]) xs"

fun spread :: "json \<Rightarrow> (string \<times> json) list" where
  "spread (JObj fs) = fs"
| "spread (JArr xs) = indexed xs"
| "spread (JStr s) = indexed (map (\<lambda>c. JStr [c]) s)"
| "spread _ = []"

text \<open>A property written after a spread replaces the copied one in place, or is added last.\<close>

definition setProp :: "string \<Rightarrow> json \<Rightarrow> (string \<times> json) list \<Rightarrow> (string \<times> json) list" where
  "setProp k v fs =
     (if k \<in> fst ` set fs then map (\<lambda>(k', v'). if k' = k then (k', v) else (k', v')) fs
      else fs @ [(k, v)])"

text \<open>\<open>normalizeImage(img)\<close>: \<open>{ ...img, tag: img.tag || deriveTag(img.time) }\<close>.\<close>

definition normalizeImage :: "json \<Rightarrow> error + json" where
  "normalizeImage img =
     (case readProp img ''tag'' of
        Inl e \<Rightarrow> Inl e
      | Inr tag \<Rightarrow>
          (case (if truthy tag then tag else None) of
             Some t \<Rightarrow> Inr (JObj (setProp ''tag'' t (spread img)))
           | None \<Rightarrow>
               (case deriveTag (field img ''time'') of
                  Inl e \<Rightarrow> Inl e
                | Inr t \<Rightarrow> Inr (JObj (setProp ''tag'' (JStr t) (spread img))))))"

subsection \<open>One input file\<close>

datatype content = Unreadable string | Parsed json

datatype reason = NoDateField | UnrecognizedFormat | ReadOrParseFailure string | CaughtTypeError

record dayrec =
  date :: string
  location :: json
  images :: "json list"

text \<open>
  What the body of \<open>for (const file of files)\<close> does with one file:
  \<^item> \<open>Skip r\<close>: \<open>console.warn\<close> with reason \<open>r\<close>, \<open>dayMap\<close> untouched;
  \<^item> \<open>Extend d loc imgs w\<close>: \<open>dayMap[d]\<close> is created with location \<open>loc\<close> if it is not
    there, \<open>imgs\<close> are pushed onto its images, and when \<open>w\<close> is a reason an exception ended
    the body after those pushes and was caught with that warning;
  \<^item> \<open>Nothing\<close>: no effect at all;
  \<^item> \<open>OutsideModel\<close>: \<open>date\<close> is truthy and not a string. Its conversion to a property
    key, and which comparisons of the final sort then throw, are left out of the model.
\<close>

datatype effect =
    Skip reason
  | Extend string json "json list" "reason option"
  | Nothing
  | OutsideModel

text \<open>
  Names that \<open>dayMap = {}\<close> inherits from \<open>Object.prototype\<close>. For such a \<open>date\<close>,
  \<open>!dayMap[date]\<close> is false although no day was stored, and \<open>dayMap[date].images\<close> is
  \<open>undefined\<close>, so a push throws.
\<close>

definition protoKeys :: "string list" where
  "protoKeys = [''constructor'', ''hasOwnProperty'', ''isPrototypeOf'', ''propertyIsEnumerable'',
     ''toLocaleString'', ''toString'', ''valueOf'', ''__proto__'', ''__defineGetter__'',
     ''__defineSetter__'', ''__lookupGetter__'', ''__lookupSetter__'']"

text \<open>\<open>data.images.forEach(img => ... push(normalizeImage(img)))\<close>: the images pushed, and
  whether an exception ended the iteration.\<close>

fun normalizeEach :: "json list \<Rightarrow> json list \<times> bool" where
  "normalizeEach [] = ([], False)"
| "normalizeEach (x # xs) =
     (case normalizeImage x of
        Inl e \<Rightarrow> ([], True)
      | Inr i \<Rightarrow> (case normalizeEach xs of (js, threw) \<Rightarrow> (i # js, threw)))"

text \<open>\<open>data.location || ''\<close>\<close>

definition locationOr :: "json \<Rightarrow> json" where
  "locationOr data = (case field data ''location'' of
                        Some l \<Rightarrow> if truthy (Some l) then l else JStr []
                      | None \<Rightarrow> JStr [])"

definition sidecar :: "json \<Rightarrow> effect" where
  "sidecar data =
     (let date = field data ''date'' in
      if \<not> truthy date then Skip NoDateField
      else (case date of
              Some (JStr d) \<Rightarrow>
                if d \<in> set protoKeys then Skip CaughtTypeError
                else (case normalizeImage data of
                        Inl e \<Rightarrow> Extend d (locationOr data) [] (Some CaughtTypeError)
                      | Inr img \<Rightarrow> Extend d (locationOr data) [img] None)
            | _ \<Rightarrow> OutsideModel))"

definition perDay :: "json \<Rightarrow> json list \<Rightarrow> effect" where
  "perDay data imgs =
     (let date = field data ''date'' in
      if \<not> truthy date then Skip NoDateField
      else (case date of
              Some (JStr d) \<Rightarrow>
                if d \<in> set protoKeys then (if imgs = [] then Nothing else Skip CaughtTypeError)
                else (case normalizeEach imgs of
                        (js, threw) \<Rightarrow>
                          Extend d (locationOr data) js
                            (if threw then Some CaughtTypeError else None))
            | _ \<Rightarrow> OutsideModel))"

definition fileEffect :: "content \<Rightarrow> effect" where
  "fileEffect c =
     (case c of
        Unreadable msg \<Rightarrow> Skip (ReadOrParseFailure msg)
      | Parsed data \<Rightarrow>
          (case readProp data ''src'' of
             Inl e \<Rightarrow> Skip CaughtTypeError
           | Inr src \<Rightarrow>
               if truthy src then sidecar data
               else (case field data ''images'' of
                       Some (JArr imgs) \<Rightarrow> perDay data imgs
                     | _ \<Rightarrow> Skip UnrecognizedFormat)))"

subsection \<open>The loop over the files\<close>

text \<open>\<open>dayMap\<close> is kept as the list of its entries in insertion order.\<close>

record agg =
  dayMap :: "(string \<times> dayrec) list"
  warnings :: "(string \<times> reason) list"

definition ensureDay :: "string \<Rightarrow> json \<Rightarrow> (string \<times> dayrec) list \<Rightarrow> (string \<times> dayrec) list" where
  "ensureDay d loc dm =
     (if d \<in> fst ` set dm then dm
      else dm @ [(d, \<lparr>date = d, location = loc, images = []\<rparr>)])"

definition pushImages :: "string \<Rightarrow> json list \<Rightarrow> (string \<times> dayrec) list \<Rightarrow> (string \<times> dayrec) list" where
  "pushImages d imgs dm =
     map (\<lambda>(k, r). if k = d then (k, r\<lparr>images := images r @ imgs\<rparr>) else (k, r)) dm"

definition warn :: "string \<Rightarrow> reason \<Rightarrow> agg \<Rightarrow> agg" where
  "warn file r st = st\<lparr>warnings := warnings st @ [(file, r)]\<rparr>"

fun applyEffect :: "string \<Rightarrow> effect \<Rightarrow> agg \<Rightarrow> agg option" where
  "applyEffect file (Skip r) st = Some (warn file r st)"
| "applyEffect file (Extend d loc imgs w) st =
     (let st' = st\<lparr>dayMap := pushImages d imgs (ensureDay d loc (dayMap st))\<rparr>
      in Some (case w of None \<Rightarrow> st' | Some r \<Rightarrow> warn file r st'))"
| "applyEffect file Nothing st = Some st"
| "applyEffect file OutsideModel st = None"

fun processFiles :: "(string \<times> content) list \<Rightarrow> agg \<Rightarrow> agg option" where
  "processFiles [] st = Some st"
| "processFiles ((file, c) # fs) st =
     (case applyEffect file (fileEffect c) st of
        None \<Rightarrow> None
      | Some st' \<Rightarrow> processFiles fs st')"

subsection \<open>Sorting and output\<close>

text \<open>
  \<open>Array.prototype.sort\<close> is stable; for a consistent comparison function its result is the
  one stable sorted arrangement, which insertion from the right computes.
\<close>

fun insertBy :: "('a \<Rightarrow> 'a \<Rightarrow> int) \<Rightarrow> 'a \<Rightarrow> 'a list \<Rightarrow> 'a list" where
  "insertBy cmp x [] = [x]"
| "insertBy cmp x (y # ys) = (if cmp x y \<le> 0 then x # y # ys else y # insertBy cmp x ys)"

definition sortBy :: "('a \<Rightarrow> 'a \<Rightarrow> int) \<Rightarrow> 'a list \<Rightarrow> 'a list" where
  "sortBy cmp xs = foldr (insertBy cmp) xs []"

text \<open>
  \<open>Object.values(dayMap)\<close>: the entries whose key is an array index (a canonical decimal
  below \<open>2^32 - 1\<close>) come first, in ascending numeric order, then the others in insertion
  order.
\<close>

definition isArrayIndex :: "string \<Rightarrow> bool" where
  "isArrayIndex k = (k \<noteq> [] \<and> list_all isDigit k \<and> (k = ''0'' \<or> hd k \<noteq> CHR ''0'')
                     \<and> length k \<le> 10 \<and> digitsVal k < 4294967295)"

definition objectValues :: "(string \<times> 'a) list \<Rightarrow> 'a list" where
  "objectValues dm =
     map snd (sort_key (\<lambda>(k, v). digitsVal k) (filter (\<lambda>(k, v). isArrayIndex k) dm))
     @ map snd (filter (\<lambda>(k, v). \<not> isArrayIndex k) dm)"

text \<open>
  \<open>a.time || ''\<close> of a normalized image; \<open>None\<close> when \<open>time\<close> is truthy and not a string, where
  \<open>.localeCompare\<close> does not exist and a comparison with this receiver throws.
\<close>

definition timeOr :: "json \<Rightarrow> string option" where
  "timeOr img = (case field img ''time'' of
                   Some (JStr t) \<Rightarrow> Some t
                 | Some v \<Rightarrow> if truthy (Some v) then None else Some []
                 | None \<Rightarrow> Some [])"

definition timeKey :: "json \<Rightarrow> string" where
  "timeKey img = (case timeOr img of Some t \<Rightarrow> t | None \<Rightarrow> [])"

text \<open>
  \<open>day.images.sort((a, b) => (a.time || '').localeCompare(b.time || ''))\<close>, with \<open>lc\<close> for
  the platform's \<open>localeCompare\<close>. An array of fewer than two images is never compared.
  With two or more, a \<open>time\<close> without \<open>localeCompare\<close> makes the outcome depend on the
  engine's sequence of comparisons: \<open>None\<close>, outside the model.
\<close>

definition sortImages :: "(string \<Rightarrow> string \<Rightarrow> int) \<Rightarrow> dayrec \<Rightarrow> dayrec option" where
  "sortImages lc day =
     (if length (images day) < 2 then Some day
      else if list_all (\<lambda>i. timeOr i \<noteq> None) (images day)
      then Some (day\<lparr>images := sortBy (\<lambda>a b. lc (timeKey a) (timeKey b)) (images day)\<rparr>)
      else None)"

fun sortAllImages :: "(string \<Rightarrow> string \<Rightarrow> int) \<Rightarrow> dayrec list \<Rightarrow> dayrec list option" where
  "sortAllImages lc [] = Some []"
| "sortAllImages lc (d # ds) =
     (case sortImages lc d of
        None \<Rightarrow> None
      | Some d' \<Rightarrow> (case sortAllImages lc ds of None \<Rightarrow> None | Some ds' \<Rightarrow> Some (d' # ds')))"

record built =
  days :: "dayrec list"
  warned :: "(string \<times> reason) list"
  dayCount :: nat
  imageCount :: nat

text \<open>
  The whole script on \<open>files\<close>, the sorted \<open>.json\<close> entries of the days directory, each with
  what reading and parsing it gives. \<open>days\<close> is the array written to \<open>content/index.json\<close>,
  \<open>warned\<close> the warnings in order, the two counts those of the final log line. \<open>None\<close>: the
  run leaves the modelled fragment (see \<open>OutsideModel\<close> and \<open>sortImages\<close>).
\<close>

definition build :: "(string \<Rightarrow> string \<Rightarrow> int) \<Rightarrow> (string \<times> content) list \<Rightarrow> built option" where
  "build lc files =
     (case processFiles files \<lparr>dayMap = [], warnings = []\<rparr> of
        None \<Rightarrow> None
      | Some st \<Rightarrow>
          (case sortAllImages lc (objectValues (dayMap st)) of
             None \<Rightarrow> None
           | Some ds \<Rightarrow>
               (let sorted = sortBy (\<lambda>a b. lc (date b) (date a)) ds
                in Some \<lparr>days = sorted, warned = warnings st, dayCount = length sorted,
                         imageCount = foldl (\<lambda>n d. n + length (images d)) 0 sorted\<rparr>)))"

text \<open>Comparison by code units, the order \<open>localeCompare\<close> has on digit strings of one shape.\<close>

definition codeUnitCompare :: "string \<Rightarrow> string \<Rightarrow> int" where
  "codeUnitCompare a b = (if a < b then - 1 else if a = b then 0 else 1)"

subsection \<open>What a file contributes\<close>

text \<open>
  Read off \<open>fileEffect\<close>: the date under which a file extends \<open>dayMap\<close> (if it does), the
  images it pushes there, and the location it would give a day it creates.
\<close>

definition fileKey :: "string \<times> content \<Rightarrow> string option" where
  "fileKey f = (case fileEffect (snd f) of Extend d loc imgs w \<Rightarrow> Some d | _ \<Rightarrow> None)"

definition contributed :: "string \<times> content \<Rightarrow> json list" where
  "contributed f = (case fileEffect (snd f) of Extend d loc imgs w \<Rightarrow> imgs | _ \<Rightarrow> [])"

definition fileLocation :: "string \<times> content \<Rightarrow> json" where
  "fileLocation f = (case fileEffect (snd f) of Extend d loc imgs w \<Rightarrow> loc | _ \<Rightarrow> JStr [])"

definition fileWarning :: "string \<times> content \<Rightarrow> reason option" where
  "fileWarning f = (case fileEffect (snd f) of
                      Skip r \<Rightarrow> Some r
                    | Extend d loc imgs w \<Rightarrow> w
                    | _ \<Rightarrow> None)"



subsection \<open>The grouping in the words of the specification\<close>






text \<open>Sample inputs: two sidecar files of one date, a per-day file, a file that does not parse.\<close>

definition sidecarA :: "string \<times> content" where
  "sidecarA = (''2025-06-14-a.json'',
     Parsed (JObj [(''date'', JStr ''2025-06-14''), (''time'', JStr ''05:47''),
                   (''src'', JStr ''a.jpg'')]))"

definition sidecarB :: "string \<times> content" where
  "sidecarB = (''2025-06-14-b.json'',
     Parsed (JObj [(''date'', JStr ''2025-06-14''), (''time'', JStr ''20:11''),
                   (''src'', JStr ''b.jpg''), (''location'', JStr ''Torrey Pines'')]))"

definition perDayC :: "string \<times> content" where
  "perDayC = (''2025-06-15.json'',
     Parsed (JObj [(''date'', JStr ''2025-06-15''), (''location'', JStr ''La Jolla Cove''),
                   (''images'', JArr [JObj [(''src'', JStr ''d.jpg''), (''time'', JStr ''19:58'')],
                                      JObj [(''src'', JStr ''c.jpg''), (''time'', JStr ''06:02'')]])]))"

definition brokenD :: "string \<times> content" where
  "brokenD = (''broken.json'', Unreadable ''Unexpected end of JSON input'')"

definition sampleFiles :: "(string \<times> content) list" where
  "sampleFiles = [sidecarA, sidecarB, perDayC, brokenD]"

definition sampleBuilt :: built where
  "sampleBuilt =
     \<lparr>days =
        [\<lparr>date = ''2025-06-15'', location = JStr ''La Jolla Cove'',
          images =
            [JObj [(''src'', JStr ''c.jpg''), (''time'', JStr ''06:02''), (''tag'', JStr ''sunrise'')],
             JObj [(''src'', JStr ''d.jpg''), (''time'', JStr ''19:58''), (''tag'', JStr ''sunset'')]]\<rparr>,
         \<lparr>date = ''2025-06-14'', location = JStr [],
          images =
            [JObj [(''date'', JStr ''2025-06-14''), (''time'', JStr ''05:47''),
                   (''src'', JStr ''a.jpg''), (''tag'', JStr ''sunrise'')],
             JObj [(''date'', JStr ''2025-06-14''), (''time'', JStr ''20:11''),
                   (''src'', JStr ''b.jpg''), (''location'', JStr ''Torrey Pines''),
                   (''tag'', JStr ''sunset'')]]\<rparr>],
      warned = [(''broken.json'', ReadOrParseFailure ''Unexpected end of JSON input'')],
      dayCount = 2, imageCount = 4\<rparr>"

text \<open>
  \<open>agreesOn lc S\<close>: on the strings of \<open>S\<close> the collation \<open>lc\<close> orders as the code units
  do. The platform's \<open>localeCompare\<close> does so on strings of digits with separators at
  fixed places, such as \<open>YYYY-MM-DD\<close> and \<open>HH:MM\<close>.
\<close>

definition agreesOn :: "(string \<Rightarrow> string \<Rightarrow> int) \<Rightarrow> string set \<Rightarrow> bool" where
  "agreesOn lc S = (\<forall>a \<in> S. \<forall>b \<in> S. (lc a b \<le> 0) = (a \<le> b))"

subsection \<open>Valid input files\<close>

text \<open>
  A valid image is an object whose \<open>time\<close>, when it has one, is a string (or falsy). A valid
  file parses to an object with a non-empty string \<open>date\<close> (not a name inherited from
  \<open>Object.prototype\<close>) that is either a valid image with a truthy \<open>src\<close> (sidecar shape) or
  has no truthy \<open>src\<close> and an \<open>images\<close> array of valid images (per-day shape).
\<close>

definition validImage :: "json \<Rightarrow> bool" where
  "validImage img =
     (case img of
        JObj fs \<Rightarrow> (case map_of fs ''time'' of
                      None \<Rightarrow> True
                    | Some (JStr t) \<Rightarrow> True
                    | Some v \<Rightarrow> \<not> truthy (Some v))
      | _ \<Rightarrow> False)"

definition validFile :: "string \<times> content \<Rightarrow> bool" where
  "validFile f =
     (case snd f of
        Parsed (JObj fs) \<Rightarrow>
          (case map_of fs ''date'' of
             Some (JStr d) \<Rightarrow>
               d \<noteq> [] \<and> d \<notin> set protoKeys
               \<and> (if truthy (map_of fs ''src'') then validImage (JObj fs)
                    else (case map_of fs ''images'' of
                            Some (JArr imgs) \<Rightarrow> list_all validImage imgs
                          | _ \<Rightarrow> False))
           | _ \<Rightarrow> False)
      | _ \<Rightarrow> False)"

text \<open>The \<open>date\<close> string of a parsed file (empty when there is none).\<close>

definition fileDate :: "string \<times> content \<Rightarrow> string" where
  "fileDate f = (case snd f of
                   Parsed data \<Rightarrow> (case field data ''date'' of Some (JStr d) \<Rightarrow> d | _ \<Rightarrow> [])
                 | _ \<Rightarrow> [])"

text \<open>The warning a file leaves, as the pair logged; \<open>dayMap\<close> after a list of files.\<close>

definition warningOf :: "string \<times> content \<Rightarrow> (string \<times> reason) list" where
  "warningOf f = (case fileWarning f of None \<Rightarrow> [] | Some r \<Rightarrow> [(fst f, r)])"

fun dayMapAfter :: "(string \<times> content) list \<Rightarrow> (string \<times> dayrec) list \<Rightarrow> (string \<times> dayrec) list" where
  "dayMapAfter [] dm = dm"
| "dayMapAfter (f # fs) dm =
     dayMapAfter fs (case fileEffect (snd f) of
                       Extend d loc imgs w \<Rightarrow> pushImages d imgs (ensureDay d loc dm)
                     | _ \<Rightarrow> dm)"

text \<open>More sample inputs: a file of neither shape, and one with both \<open>src\<close> and \<open>images\<close>.\<close>

definition unknownF :: "string \<times> content" where
  "unknownF = (''notes.json'',
     Parsed (JObj [(''date'', JStr ''2025-06-16''), (''caption'', JStr ''no media'')]))"

definition mixedE :: "string \<times> content" where
  "mixedE = (''mixed.json'',
     Parsed (JObj [(''date'', JStr ''2025-06-14''), (''src'', JStr ''a.jpg''),
                   (''time'', JStr ''05:47''),
                   (''images'', JArr [JObj [(''src'', JStr ''x.jpg''), (''time'', JStr ''07:00'')]])]))"

definition mixedBuilt :: built where
  "mixedBuilt =
     \<lparr>days =
        [\<lparr>date = ''2025-06-14'', location = JStr [],
          images =
            [JObj [(''date'', JStr ''2025-06-14''), (''src'', JStr ''a.jpg''),
                   (''time'', JStr ''05:47''),
                   (''images'', JArr [JObj [(''src'', JStr ''x.jpg''), (''time'', JStr ''07:00'')]]),
                   (''tag'', JStr ''sunrise'')]]\<rparr>],
      warned = [], dayCount = 1, imageCount = 1\<rparr>"

definition noDateG :: "string \<times> content" where
  "noDateG = (''undated.json'',
     Parsed (JObj [(''src'', JStr ''u.jpg''), (''time'', JStr ''06:00'')]))"

text \<open>
  A collation that puts punctuation before digits, as the root collation of the Unicode
  collation algorithm does, which \<open>localeCompare\<close> follows on Node.js: the colon sorts
  before every digit. Two sidecar files of one date, the time of one written without the
  colon.
\<close>

definition collationRank :: "char \<Rightarrow> nat" where
  "collationRank c = (if isDigit c then 256 + of_char c else of_char c)"

definition punctuationFirst :: "string \<Rightarrow> string \<Rightarrow> int" where
  "punctuationFirst a b =
     (let ka = map collationRank a; kb = map collationRank b
      in if ka < kb then - 1 else if ka = kb then 0 else 1)"

definition plainTimeA :: "string \<times> content" where
  "plainTimeA = (''2025-06-14-a.json'',
     Parsed (JObj [(''date'', JStr ''2025-06-14''), (''time'', JStr ''0547''),
                   (''src'', JStr ''a.jpg'')]))"

definition colonTimeB :: "string \<times> content" where
  "colonTimeB = (''2025-06-14-b.json'',
     Parsed (JObj [(''date'', JStr ''2025-06-14''), (''time'', JStr ''05:47''),
                   (''src'', JStr ''b.jpg'')]))"
section \<open>The site script (Content Processor)\<close>

text \<open>
  An operation of the site script returns a value, throws (an \<open>async\<close> function rejects),
  or leaves the modelled fragment: \<open>Unmodelled\<close> marks coercions of values that the content
  schema does not allow (a latitude that is not a number, an object where a time string is
  interpolated), whose results are not worked out here.
\<close>

datatype 'a outcome = Returns 'a | Throws error | Unmodelled

subsection \<open>Doubles, rounding, rendering numbers\<close>

text \<open>\<open>Math.round\<close> on a finite value: the nearest integer, a half rounding up.\<close>

definition jsRound :: "rat \<Rightarrow> int" where
  "jsRound r = \<lfloor>r + 1 / 2\<rfloor>"

text \<open>
  The double nearest to a rational, ties to the even significand: 53 bits, the exponent
  of the last place no lower than \<open>-1074\<close>, overflow to an infinity. \<open>bitlen\<close> is the number
  of binary digits, \<open>log2floor r\<close> the exponent of the leading bit of \<open>r > 0\<close>.
\<close>

fun bitlen :: "nat \<Rightarrow> nat" where
  "bitlen n = (if n = 0 then 0 else Suc (bitlen (n div 2)))"

declare bitlen.simps [simp del]

definition pow2 :: "int \<Rightarrow> rat" where
  "pow2 k = (if 0 \<le> k then 2 ^ nat k else 1 / 2 ^ nat (- k))"

definition log2floor :: "rat \<Rightarrow> int" where
  "log2floor r = (if 1 \<le> r then int (bitlen (nat \<lfloor>r\<rfloor>)) - 1
                  else - int (bitlen (nat (\<lceil>1 / r\<rceil> - 1))))"

definition roundHalfEven :: "rat \<Rightarrow> int" where
  "roundHalfEven q = (let n = \<lfloor>q\<rfloor>; f = q - of_int n in
                      if f < 1 / 2 then n else if 1 / 2 < f then n + 1
                      else if even n then n else n + 1)"

definition doubleLimit :: rat where
  "doubleLimit = 2 ^ 1024"

definition toDouble :: "rat \<Rightarrow> jsnum" where
  "toDouble r =
     (if r = 0 then Fin 0
      else (let a = \<bar>r\<bar>;
                ulp = pow2 (max (log2floor a) (- 1022) - 52);
                m = of_int (roundHalfEven (a / ulp)) * ulp
            in if doubleLimit \<le> m then (if 0 < r then PInf else NInf)
               else Fin (if 0 < r then m else - m)))"

text \<open>
  \<open>x * 10\<close> for a number \<open>x\<close> read from JSON: the double of \<open>x\<close> times ten, rounded to a
  double again.
\<close>

definition timesTen :: "rat \<Rightarrow> jsnum" where
  "timesTen x = (case toDouble x of Fin d \<Rightarrow> toDouble (d * 10) | v \<Rightarrow> v)"

text \<open>\<open>Math.round(x * 10)\<close>\<close>

definition tenths :: "rat \<Rightarrow> jsnum" where
  "tenths x = (case timesTen x of Fin r \<Rightarrow> Fin (of_int (jsRound r)) | v \<Rightarrow> v)"

text \<open>
  \<open>Number::toString\<close> on an integral value. Up to \<open>2^53\<close> the digits are those of the
  integer. Above, they are the shortest digit string that reads back as the same double (of
  two such, the nearer one), padded with zeros below \<open>10^21\<close> and in exponent form from
  there on. \<open>candidates n k\<close> are the two neighbours of \<open>n\<close> with \<open>k\<close> leading digits that
  read back as \<open>n\<close>.
\<close>

definition candidates :: "nat \<Rightarrow> nat \<Rightarrow> nat list" where
  "candidates n k =
     (let p = 10 ^ (length (showNat n) - k); lo = (n div p) * p
      in filter (\<lambda>c. toDouble (of_nat c) = Fin (of_nat n)) [lo, lo + p])"

fun shortestFrom :: "nat \<Rightarrow> nat list \<Rightarrow> nat" where
  "shortestFrom n [] = n"
| "shortestFrom n (k # ks) =
     (case candidates n k of
        [] \<Rightarrow> shortestFrom n ks
      | [c] \<Rightarrow> c
      | lo # hi # _ \<Rightarrow>
          if n - lo < hi - n then lo
          else if hi - n < n - lo then hi
          else if even (lo div 10 ^ (length (showNat n) - k)) then lo else hi)"

definition dropZeros :: "string \<Rightarrow> string" where
  "dropZeros ds = rev (dropWhile (\<lambda>c. c = CHR ''0'') (rev ds))"

definition natString :: "nat \<Rightarrow> string" where
  "natString n =
     (if n \<le> 2 ^ 53 then showNat n
      else (let ds = showNat (shortestFrom n [1 ..< 18]) in
            if length ds \<le> 21 then ds
            else (case dropZeros ds of
                    [] \<Rightarrow> []
                  | [c] \<Rightarrow> c # ''e+'' @ showNat (length ds - 1)
                  | c # cs \<Rightarrow> c # CHR ''.'' # cs @ ''e+'' @ showNat (length ds - 1))))"

definition intString :: "int \<Rightarrow> string" where
  "intString i = (if i < 0 then CHR ''-'' # natString (nat (- i)) else natString (nat i))"

definition numString :: "jsnum \<Rightarrow> string" where
  "numString v = (case v of NaN \<Rightarrow> ''NaN'' | PInf \<Rightarrow> ''Infinity'' | NInf \<Rightarrow> ''-Infinity''
                  | Fin r \<Rightarrow> intString \<lfloor>r\<rfloor>)"

text \<open>
  \<open>`${v}`\<close> for a JSON value or \<open>undefined\<close>. Integral numbers are printed; other numbers,
  arrays and objects are left out.
\<close>

fun templateStr :: "json option \<Rightarrow> string option" where
  "templateStr None = Some ''undefined''"
| "templateStr (Some JNull) = Some ''null''"
| "templateStr (Some (JBool b)) = Some (if b then ''true'' else ''false'')"
| "templateStr (Some (JStr s)) = Some s"
| "templateStr (Some (JNum r)) = (if r = of_int \<lfloor>r\<rfloor> then Some (intString \<lfloor>r\<rfloor>) else None)"
| "templateStr (Some (JArr xs)) = None"
| "templateStr (Some (JObj fs)) = None"

subsection \<open>Weather\<close>

text \<open>
  The first data point of a provider response, with the fields \<open>formatWeather\<close> reads:
  \<open>temp\<close>, \<open>wind_speed\<close>, \<open>wind_deg\<close> (may be absent) and \<open>weather[0].description\<close> (may be
  absent).
\<close>

record wpoint =
  temp :: rat
  wind_speed :: rat
  wind_deg :: "rat option"
  description :: "string option"

text \<open>
  One exchange with the provider: \<open>Failed\<close> when \<open>fetch\<close> rejects, the status is not ok,
  the body is not JSON or \<open>data.data?.[0]\<close> is falsy; the data point otherwise.
\<close>

datatype response = Failed | Point wpoint

definition dirs :: "string list" where
  "dirs = [''N'', ''NE'', ''E'', ''SE'', ''S'', ''SW'', ''W'', ''NW'']"

text \<open>
  \<open>degreesToCardinal(deg)\<close>. The remainder \<open>%\<close> has the sign of the dividend, and a negative
  index reads \<open>undefined\<close>.
\<close>

definition degreesToCardinal :: "rat option \<Rightarrow> string" where
  "degreesToCardinal deg =
     (case deg of
        None \<Rightarrow> []
      | Some d \<Rightarrow>
          (let k = jsRound (d / 45) in
           if 0 \<le> k then dirs ! nat (k mod 8)
           else if (- k) mod 8 = 0 then dirs ! 0
           else ''undefined''))"

definition toUpperAscii :: "char \<Rightarrow> char" where
  "toUpperAscii c = (let n = (of_char c :: nat) in
                      if 97 \<le> n \<and> n \<le> 122 then char_of (n - 32) else c)"

text \<open>\<open>desc.charAt(0).toUpperCase() + desc.slice(1)\<close>\<close>

definition capitalize :: "string \<Rightarrow> string" where
  "capitalize desc = (case desc of [] \<Rightarrow> [] | c # cs \<Rightarrow> toUpperAscii c # cs)"

definition degF :: string where
  "degF = [CHR 0xC2, CHR 0xB0, CHR ''F'']"

definition midDot :: string where
  "midDot = [CHR '' '', CHR 0xC2, CHR 0xB7, CHR '' '']"

text \<open>\<open>formatWeather(w)\<close>: \<open>`${temp}\<degree>F \<cdot> ${cap} \<cdot> Wind ${dir} ${wind}mph`\<close>\<close>

definition formatWeather :: "wpoint \<Rightarrow> string" where
  "formatWeather w =
     (let tmp = jsRound (temp w);
          desc = (case description w of None \<Rightarrow> [] | Some s \<Rightarrow> s);
          wind = jsRound (wind_speed w);
          dir = degreesToCardinal (wind_deg w);
          cap = capitalize desc
      in intString tmp @ degF @ midDot @ cap @ midDot @ ''Wind '' @ dir @ '' '' @ intString wind
         @ ''mph'')"

text \<open>
  What the script is run with: the configured key, the label \<open>formatDateLabel\<close> gives a date
  string (locale formatting, taken as given), the outcome of the \<open>n\<close>-th network request
  for its date, time string, latitude and longitude, and the suffix
  \<open>Math.random().toString(36).slice(2, 6)\<close> of the \<open>n\<close>-th call of \<open>Math.random\<close>.
\<close>

record env =
  WEATHER_API_KEY :: string
  formatDateLabel :: "string \<Rightarrow> string"
  network :: "nat \<Rightarrow> string \<Rightarrow> string \<Rightarrow> rat \<Rightarrow> rat \<Rightarrow> response"
  randomSuffix :: "nat \<Rightarrow> string"

text \<open>
  The mutable state of a page session: \<open>weatherCache\<close> (newest entry first), the number
  of network requests issued and of \<open>Math.random\<close> calls made so far.
\<close>

record session =
  weatherCache :: "(string \<times> string) list"
  fetches :: nat
  randoms :: nat

definition asNumber :: "json \<Rightarrow> rat option" where
  "asNumber v = (case v of JNum r \<Rightarrow> Some r | _ \<Rightarrow> None)"

text \<open>\<open>`${date}-${Math.round(lat * 10)}-${Math.round(lng * 10)}`\<close>\<close>

definition cacheKey :: "string \<Rightarrow> rat \<Rightarrow> rat \<Rightarrow> string" where
  "cacheKey day lat lng =
     day @ ''-'' @ numString (tenths lat) @ ''-'' @ numString (tenths lng)"

text \<open>
  \<open>weatherCache[cacheKey]\<close> as \<open>if (...)\<close> takes it: a stored string that is truthy. (No
  cache key is a name inherited from \<open>Object.prototype\<close>: each contains a \<open>-\<close>.)
\<close>

definition cached :: "session \<Rightarrow> string \<Rightarrow> string option" where
  "cached st k = (case map_of (weatherCache st) k of
                    Some hit \<Rightarrow> if hit \<noteq> [] then Some hit else None
                  | None \<Rightarrow> None)"

text \<open>
  \<open>fetchWeather(date, timeStr, lat, lng)\<close>: nothing without a key; then the cache; then
  the request, whose URL interpolates \<open>timeStr\<close>. Every failure inside \<open>try\<close> returns
  \<open>null\<close> (\<open>None\<close>) and stores nothing; a result is stored under the cache key and
  returned.
\<close>

definition fetchWeather ::
  "env \<Rightarrow> session \<Rightarrow> string \<Rightarrow> json option \<Rightarrow> json \<Rightarrow> json \<Rightarrow> (string option \<times> session) outcome" where
  "fetchWeather e st day timeStr lat lng =
     (if WEATHER_API_KEY e = [] then Returns (None, st)
      else (case (asNumber lat, asNumber lng) of
              (Some latN, Some lngN) \<Rightarrow>
                (case cached st (cacheKey day latN lngN) of
                   Some hit \<Rightarrow> Returns (Some hit, st)
                 | None \<Rightarrow>
                     (case templateStr timeStr of
                        None \<Rightarrow> Unmodelled
                      | Some ts \<Rightarrow>
                          (case network e (fetches st) day ts latN lngN of
                             Failed \<Rightarrow> Returns (None, st\<lparr>fetches := fetches st + 1\<rparr>)
                           | Point w \<Rightarrow>
                               Returns (Some (formatWeather w),
                                        st\<lparr>weatherCache :=
                                              (cacheKey day latN lngN, formatWeather w)
                                              # weatherCache st,
                                           fetches := fetches st + 1\<rparr>))))
            | _ \<Rightarrow> Unmodelled))"

text \<open>
  What a page session can become after some moment: requests for weather with any
  arguments, and calls of \<open>Math.random\<close>, in any number and order. Nothing else in the
  script touches the session.
\<close>

inductive later :: "env \<Rightarrow> session \<Rightarrow> session \<Rightarrow> bool" for e :: env where
  later_refl: "later e st st"
| later_fetch: "later e st st1 \<Longrightarrow> fetchWeather e st1 d t lat lng = Returns (r, st2)
                \<Longrightarrow> later e st st2"
| later_random: "later e st st1 \<Longrightarrow> later e st (st1\<lparr>randoms := randoms st1 + 1\<rparr>)"

subsection \<open>\<open>processDays\<close>\<close>

definition DEFAULT_LAT :: rat where
  "DEFAULT_LAT = 327157 / 10000"

definition DEFAULT_LNG :: rat where
  "DEFAULT_LNG = - 1171611 / 10000"

text \<open>The placeholder dash (U+2014) and the default location.\<close>

definition dash :: string where
  "dash = [CHR 0xE2, CHR 0x80, CHR 0x94]"

definition defaultLocation :: string where
  "defaultLocation = ''San Diego, CA''"

text \<open>\<open>v || w\<close>\<close>

definition orElse :: "json option \<Rightarrow> json \<Rightarrow> json" where
  "orElse v w = (case v of Some x \<Rightarrow> if truthy (Some x) then x else w | None \<Rightarrow> w)"

text \<open>
  The body of \<open>for (const img of ...)\<close> for one image, in the order the script evaluates
  it. \<open>day\<close> is \<open>day.date\<close>, \<open>lat\<close> and \<open>lng\<close> are \<open>day.lat || DEFAULT_LAT\<close> and
  \<open>day.lng || DEFAULT_LNG\<close>, \<open>loc\<close> is \<open>day.location\<close>.
\<close>

text \<open>\<open>const tag = img.tag || getTag(img.time)\<close>\<close>

definition resolveTag :: "json \<Rightarrow> error + json" where
  "resolveTag img =
     (case readProp img ''tag'' of
        Inl err \<Rightarrow> Inl err
      | Inr tagv \<Rightarrow>
          if truthy tagv then Inr (orElse tagv JNull)
          else (case getTag (field img ''time'') of
                  Inl err \<Rightarrow> Inl err
                | Inr t \<Rightarrow> Inr (JStr t)))"

text \<open>
  \<open>let weather = img.weather; if (!weather && WEATHER_API_KEY) weather = await
  fetchWeather(...)\<close>; a \<open>null\<close> from \<open>fetchWeather\<close> is \<open>JNull\<close>.
\<close>

definition resolveWeather ::
  "env \<Rightarrow> session \<Rightarrow> string \<Rightarrow> json \<Rightarrow> json \<Rightarrow> json \<Rightarrow> (json option \<times> session) outcome" where
  "resolveWeather e st day lat lng img =
     (if \<not> truthy (field img ''weather'') \<and> WEATHER_API_KEY e \<noteq> []
      then (case fetchWeather e st day (field img ''time'') lat lng of
              Returns (None, st1) \<Rightarrow> Returns (Some JNull, st1)
            | Returns (Some s, st1) \<Rightarrow> Returns (Some (JStr s), st1)
            | Throws err \<Rightarrow> Throws err
            | Unmodelled \<Rightarrow> Unmodelled)
      else Returns (field img ''weather'', st))"

text \<open>
  \<open>img.id || `${day.date}-${img.time}-${Math.random().toString(36).slice(2, 6)}`\<close>;
  \<open>None\<close> when \<open>img.time\<close> is a value whose interpolation is left out.
\<close>

definition resolveId :: "env \<Rightarrow> session \<Rightarrow> string \<Rightarrow> json \<Rightarrow> (json \<times> session) option" where
  "resolveId e st day img =
     (if truthy (field img ''id'') then Some (orElse (field img ''id'') JNull, st)
      else (case templateStr (field img ''time'') of
              None \<Rightarrow> None
            | Some ts \<Rightarrow>
                Some (JStr (day @ ''-'' @ ts @ ''-'' @ randomSuffix e (randoms st)),
                      st\<lparr>randoms := randoms st + 1\<rparr>)))"

text \<open>\<open>{ ...img, id, tag, weather: weather || dash, location: day.location || 'San Diego, CA' }\<close>\<close>

definition assemble :: "json \<Rightarrow> json \<Rightarrow> json \<Rightarrow> json option \<Rightarrow> json option \<Rightarrow> json" where
  "assemble img idv tag weather loc =
     JObj (setProp ''location'' (orElse loc (JStr defaultLocation))
           (setProp ''weather'' (orElse weather (JStr dash))
            (setProp ''tag'' tag
             (setProp ''id'' idv (spread img)))))"

definition processImage ::
  "env \<Rightarrow> session \<Rightarrow> string \<Rightarrow> json \<Rightarrow> json \<Rightarrow> json option \<Rightarrow> json \<Rightarrow> (json \<times> session) outcome" where
  "processImage e st day lat lng loc img =
     (case resolveTag img of
        Inl err \<Rightarrow> Throws err
      | Inr tag \<Rightarrow>
          (case resolveWeather e st day lat lng img of
             Throws err \<Rightarrow> Throws err
           | Unmodelled \<Rightarrow> Unmodelled
           | Returns (weather, st1) \<Rightarrow>
               (case resolveId e st1 day img of
                  None \<Rightarrow> Unmodelled
                | Some (idv, st2) \<Rightarrow> Returns (assemble img idv tag weather loc, st2))))"

fun processImages ::
  "env \<Rightarrow> session \<Rightarrow> string \<Rightarrow> json \<Rightarrow> json \<Rightarrow> json option \<Rightarrow> json list \<Rightarrow> (json list \<times> session) outcome" where
  "processImages e st day lat lng loc [] = Returns ([], st)"
| "processImages e st day lat lng loc (img # imgs) =
     (case processImage e st day lat lng loc img of
        Throws err \<Rightarrow> Throws err
      | Unmodelled \<Rightarrow> Unmodelled
      | Returns (r, st1) \<Rightarrow>
          (case processImages e st1 day lat lng loc imgs of
             Throws err \<Rightarrow> Throws err
           | Unmodelled \<Rightarrow> Unmodelled
           | Returns (rs, st2) \<Rightarrow> Returns (r # rs, st2)))"

text \<open>
  \<open>day.images || []\<close> as the sequence \<open>for ... of\<close> walks: the elements of an array, the
  characters of a string, nothing for a falsy value; any other value is not iterable.
\<close>

definition iterable :: "json option \<Rightarrow> error + json list" where
  "iterable v =
     (if \<not> truthy v then Inr []
      else (case v of
              Some (JArr xs) \<Rightarrow> Inr xs
            | Some (JStr s) \<Rightarrow> Inr (map (\<lambda>c. JStr [c]) s)
            | _ \<Rightarrow> Inl TypeError))"

text \<open>
  The body of \<open>for (const day of days)\<close>. \<open>formatDateLabel(day.date)\<close> calls \<open>.split\<close> on the
  date, which only a string has.
\<close>

definition processDay :: "env \<Rightarrow> session \<Rightarrow> json \<Rightarrow> (json \<times> session) outcome" where
  "processDay e st day =
     (case readProp day ''lat'' of
        Inl err \<Rightarrow> Throws err
      | Inr latv \<Rightarrow>
          (case field day ''date'' of
             Some (JStr dstr) \<Rightarrow>
               (case iterable (field day ''images'') of
                  Inl err \<Rightarrow> Throws err
                | Inr imgs \<Rightarrow>
                    (case processImages e st dstr (orElse latv (JNum DEFAULT_LAT))
                            (orElse (field day ''lng'') (JNum DEFAULT_LNG))
                            (field day ''location'') imgs of
                       Throws err \<Rightarrow> Throws err
                     | Unmodelled \<Rightarrow> Unmodelled
                     | Returns (pimgs, st1) \<Rightarrow>
                         Returns
                           (JObj (setProp ''images'' (JArr pimgs)
                                  (setProp ''label'' (JStr (formatDateLabel e dstr))
                                   (spread day))),
                            st1)))
           | _ \<Rightarrow> Throws TypeError))"

fun processDays :: "env \<Rightarrow> session \<Rightarrow> json list \<Rightarrow> (json list \<times> session) outcome" where
  "processDays e st [] = Returns ([], st)"
| "processDays e st (day # rest) =
     (case processDay e st day of
        Throws err \<Rightarrow> Throws err
      | Unmodelled \<Rightarrow> Unmodelled
      | Returns (p, st1) \<Rightarrow>
          (case processDays e st1 rest of
             Throws err \<Rightarrow> Throws err
           | Unmodelled \<Rightarrow> Unmodelled
           | Returns (ps, st2) \<Rightarrow> Returns (p # ps, st2)))"

subsection \<open>Page initialisation: \<open>DAYS\<close> and \<open>FLAT\<close>\<close>

definition dateOf :: "json \<Rightarrow> string" where
  "dateOf day = (case field day ''date'' of Some (JStr d) \<Rightarrow> d | _ \<Rightarrow> [])"

definition imagesOf :: "json \<Rightarrow> json list" where
  "imagesOf day = (case field day ''images'' of Some (JArr xs) \<Rightarrow> xs | _ \<Rightarrow> [])"

text \<open>\<open>DAYS.forEach(day => day.images.forEach(img => FLAT.push(img)))\<close>, from \<open>FLAT = []\<close>.\<close>

definition pushEach :: "json list \<Rightarrow> json list \<Rightarrow> json list" where
  "pushEach flat imgs = foldl (\<lambda>fl img. fl @ [img]) flat imgs"

definition buildFlat :: "json list \<Rightarrow> json list" where
  "buildFlat ds = foldl (\<lambda>flat day. pushEach flat (imagesOf day)) [] ds"

record page =
  DAYS :: "json list"
  FLAT :: "json list"
  finalSession :: session

text \<open>
  The initialisation: \<open>raw\<close> is what \<open>loadContent\<close> returned (the fetched array or the demo
  data), \<open>lc\<close> the platform's \<open>localeCompare\<close>. Every processed day has a string date, so
  the sort \<open>(a, b) => b.date.localeCompare(a.date)\<close> does not throw.
\<close>

definition init :: "env \<Rightarrow> (string \<Rightarrow> string \<Rightarrow> int) \<Rightarrow> json list \<Rightarrow> page outcome" where
  "init e lc raw =
     (case processDays e \<lparr>weatherCache = [], fetches = 0, randoms = 0\<rparr> raw of
        Throws err \<Rightarrow> Throws err
      | Unmodelled \<Rightarrow> Unmodelled
      | Returns (processed, st) \<Rightarrow>
          (let sorted = sortBy (\<lambda>a b. lc (dateOf b) (dateOf a)) processed
           in Returns \<lparr>DAYS = sorted, FLAT = buildFlat sorted, finalSession = st\<rparr>))"

subsection \<open>Sample environments and content\<close>

definition clearPoint :: wpoint where
  "clearPoint = \<lparr>temp = 613 / 10, wind_speed = 58 / 10, wind_deg = Some 225,
                  description = Some ''clear sky''\<rparr>"

text \<open>A provider that is down, one that always answers, and a page without a key.\<close>

definition offlineEnv :: env where
  "offlineEnv = \<lparr>WEATHER_API_KEY = ''k'', formatDateLabel = (\<lambda>d. d),
                  network = (\<lambda>n d t la lo. Failed), randomSuffix = (\<lambda>n. ''a1b2'')\<rparr>"

definition onlineEnv :: env where
  "onlineEnv = \<lparr>WEATHER_API_KEY = ''k'', formatDateLabel = (\<lambda>d. d),
                 network = (\<lambda>n d t la lo. Point clearPoint), randomSuffix = (\<lambda>n. ''a1b2'')\<rparr>"

definition noKeyEnv :: env where
  "noKeyEnv = \<lparr>WEATHER_API_KEY = [], formatDateLabel = (\<lambda>d. d),
                network = (\<lambda>n d t la lo. Failed), randomSuffix = (\<lambda>n. ''a1b2'')\<rparr>"

definition freshSession :: session where
  "freshSession = \<lparr>weatherCache = [], fetches = 0, randoms = 0\<rparr>"

definition rawDays :: "json list" where
  "rawDays =
     [JObj [(''date'', JStr ''2025-06-13''), (''location'', JStr ''La Jolla Cove''),
            (''images'', JArr [JObj [(''id'', JStr ''a1''), (''src'', JStr ''a1.jpg''),
                                     (''time'', JStr ''06:02''), (''weather'', JStr ''55F Fog''),
                                     (''tag'', JStr ''sunrise'')],
                               JObj [(''src'', JStr ''b1.jpg''), (''time'', JStr ''19:58'')]])],
      JObj [(''date'', JStr ''2025-06-14''),
            (''images'', JArr [JObj [(''id'', JStr ''s1''), (''src'', JStr ''s1.jpg''),
                                     (''time'', JStr ''05:47'')]])]]"

text \<open>Torrey Pines, and a spot close by that rounds to the same tenths.\<close>

definition torreyLat :: rat where "torreyLat = 329184 / 10000"
definition torreyLng :: rat where "torreyLng = - 1172536 / 10000"
definition nearbyLat :: rat where "nearbyLat = 3294 / 100"
definition nearbyLng :: rat where "nearbyLng = - 11726 / 100"

text \<open>
  A longitude whose product with ten rounds, as a double, to \<open>-1198.5\<close>, while the exact
  product lies below it.
\<close>

definition edgeLng :: rat where "edgeLng = - 11985000000000001 / 100000000000000"

subsection \<open>Day lists of the content schema\<close>

text \<open>
  An image record of the schema is an object that carries a \<open>time\<close> string, whose \<open>tag\<close>
  (if it has one) is \<open>sunrise\<close> or \<open>sunset\<close> and whose \<open>weather\<close> (if it has one) is a
  string. A day record is an object with a \<open>date\<close> string, numbers for \<open>lat\<close> and \<open>lng\<close>
  and a string for \<open>location\<close> where present, and an \<open>images\<close> array of image records
  where present. A property that is present but falsy counts as absent, as it does for the
  script.
\<close>

definition absentOr :: "(json \<Rightarrow> bool) \<Rightarrow> json option \<Rightarrow> bool" where
  "absentOr P v = (case v of None \<Rightarrow> True | Some x \<Rightarrow> \<not> truthy (Some x) \<or> P x)"

definition isStr :: "json \<Rightarrow> bool" where
  "isStr v = (case v of JStr s \<Rightarrow> True | _ \<Rightarrow> False)"

definition isNum :: "json \<Rightarrow> bool" where
  "isNum v = (case v of JNum r \<Rightarrow> True | _ \<Rightarrow> False)"

definition schemaImage :: "json \<Rightarrow> bool" where
  "schemaImage img =
     (case img of
        JObj fs \<Rightarrow>
          (case map_of fs ''time'' of Some (JStr t) \<Rightarrow> True | _ \<Rightarrow> False)
          \<and> absentOr (\<lambda>v. v = JStr ''sunrise'' \<or> v = JStr ''sunset'') (map_of fs ''tag'')
          \<and> absentOr isStr (map_of fs ''weather'')
      | _ \<Rightarrow> False)"

definition schemaDay :: "json \<Rightarrow> bool" where
  "schemaDay day =
     (case day of
        JObj fs \<Rightarrow>
          (case map_of fs ''date'' of Some (JStr d) \<Rightarrow> True | _ \<Rightarrow> False)
          \<and> absentOr isNum (map_of fs ''lat'')
          \<and> absentOr isNum (map_of fs ''lng'')
          \<and> absentOr isStr (map_of fs ''location'')
          \<and> absentOr (\<lambda>v. case v of JArr imgs \<Rightarrow> list_all schemaImage imgs | _ \<Rightarrow> False)
                (map_of fs ''images'')
      | _ \<Rightarrow> False)"

text \<open>
  How a processed image \<open>r\<close> stands to the image \<open>src\<close> it was made from, in a day with
  location \<open>loc\<close>: the tag is the given one or a derived \<open>sunrise\<close>/\<open>sunset\<close>; the weather
  is the given one, the placeholder dash, or a string made by \<open>formatWeather\<close>; the
  location is \<open>day.location || 'San Diego, CA'\<close>.
\<close>

definition derivedFrom :: "json \<Rightarrow> json option \<Rightarrow> json \<Rightarrow> bool" where
  "derivedFrom src loc r =
     ((truthy (field src ''tag'') \<and> field r ''tag'' = field src ''tag''
        \<or> \<not> truthy (field src ''tag'')
           \<and> (field r ''tag'' = Some (JStr ''sunrise'') \<or> field r ''tag'' = Some (JStr ''sunset'')))
      \<and> (truthy (field src ''weather'') \<and> field r ''weather'' = field src ''weather''
          \<or> field r ''weather'' = Some (JStr dash)
          \<or> (\<exists>w. field r ''weather'' = Some (JStr (formatWeather w))))
      \<and> field r ''location'' = Some (orElse loc (JStr defaultLocation)))"

text \<open>Every string in the cache was made by \<open>formatWeather\<close>.\<close>

definition cacheOk :: "session \<Rightarrow> bool" where
  "cacheOk st = (\<forall>(k, v) \<in> set (weatherCache st). \<exists>w. v = formatWeather w)"

definition samplePage :: page where
  "samplePage =
     \<lparr>DAYS =
        [JObj [(''date'', JStr ''2025-06-14''),
               (''images'', JArr [JObj [(''id'', JStr ''s1''), (''src'', JStr ''s1.jpg''),
                                        (''time'', JStr ''05:47''), (''tag'', JStr ''sunrise''),
                                        (''weather'', JStr dash),
                                        (''location'', JStr ''San Diego, CA'')]]),
               (''label'', JStr ''2025-06-14'')],
         JObj [(''date'', JStr ''2025-06-13''), (''location'', JStr ''La Jolla Cove''),
               (''images'', JArr [JObj [(''id'', JStr ''a1''), (''src'', JStr ''a1.jpg''),
                                        (''time'', JStr ''06:02''), (''weather'', JStr ''55F Fog''),
                                        (''tag'', JStr ''sunrise''),
                                        (''location'', JStr ''La Jolla Cove'')],
                                  JObj [(''src'', JStr ''b1.jpg''), (''time'', JStr ''19:58''),
                                        (''id'', JStr ''2025-06-13-19:58-a1b2''),
                                        (''tag'', JStr ''sunset''),
                                        (''weather'', JStr dash),
                                        (''location'', JStr ''La Jolla Cove'')]]),
               (''label'', JStr ''2025-06-13'')]],
      FLAT =
        [JObj [(''id'', JStr ''s1''), (''src'', JStr ''s1.jpg''),
               (''time'', JStr ''05:47''), (''tag'', JStr ''sunrise''),
               (''weather'', JStr dash), (''location'', JStr ''San Diego, CA'')],
         JObj [(''id'', JStr ''a1''), (''src'', JStr ''a1.jpg''),
               (''time'', JStr ''06:02''), (''weather'', JStr ''55F Fog''),
               (''tag'', JStr ''sunrise''), (''location'', JStr ''La Jolla Cove'')],
         JObj [(''src'', JStr ''b1.jpg''), (''time'', JStr ''19:58''),
               (''id'', JStr ''2025-06-13-19:58-a1b2''), (''tag'', JStr ''sunset''),
               (''weather'', JStr dash), (''location'', JStr ''La Jolla Cove'')]],
      finalSession = \<lparr>weatherCache = [], fetches = 0, randoms = 1\<rparr>\<rparr>"

text \<open>The same for a processed day \<open>p\<close> and the day it was made from.\<close>

definition dayDerived :: "json \<Rightarrow> json \<Rightarrow> bool" where
  "dayDerived day p =
     (\<exists>imgs d. iterable (field day ''images'') = Inr imgs
           \<and> list_all2 (\<lambda>src r. derivedFrom src (field day ''location'') r) imgs (imagesOf p)
           \<and> field p ''images'' = Some (JArr (imagesOf p))
           \<and> field day ''date'' = Some (JStr d) \<and> field p ''date'' = Some (JStr d))"

section \<open>Week grouping\<close>

subsection \<open>\<open>Date\<close>\<close>

text \<open>
  A \<open>Date\<close> holds a time value, milliseconds from the epoch in UTC, or is invalid
  (\<open>None\<close>). Days are counted from 1970-01-01; the two functions below are the calendar of
  the language standard (proleptic Gregorian) in closed form. Local time is UTC plus a
  constant offset \<open>tz\<close> in milliseconds; changes of the offset during the year are not
  modelled.
\<close>

definition msPerDay :: int where
  "msPerDay = 86400000"

definition maxTime :: int where
  "maxTime = 8640000000000000"

text \<open>Day number of the civil date \<open>y\<close>-\<open>m\<close>-\<open>d\<close>, \<open>m\<close> from 1 to 12.\<close>

definition daysFromCivil :: "int \<Rightarrow> int \<Rightarrow> int \<Rightarrow> int" where
  "daysFromCivil y m d =
     (let y' = (if m \<le> 2 then y - 1 else y);
          era = y' div 400;
          yoe = y' - era * 400;
          mp = (if m > 2 then m - 3 else m + 9);
          doy = (153 * mp + 2) div 5 + d - 1;
          doe = yoe * 365 + yoe div 4 - yoe div 100 + doy
      in era * 146097 + doe - 719468)"

text \<open>Year, month (1 to 12) and day of the month of a day number.\<close>

definition civilFromDays :: "int \<Rightarrow> int \<times> int \<times> int" where
  "civilFromDays z =
     (let z' = z + 719468;
          era = z' div 146097;
          doe = z' - era * 146097;
          yoe = (doe - doe div 1460 + doe div 36524 - doe div 146096) div 365;
          doy = doe - (365 * yoe + yoe div 4 - yoe div 100);
          mp = (5 * doy + 2) div 153;
          d = doy - (153 * mp + 2) div 5 + 1;
          m = (if mp < 10 then mp + 3 else mp - 9)
      in (if m \<le> 2 then yoe + era * 400 + 1 else yoe + era * 400, m, d))"

definition weekDay :: "int \<Rightarrow> int" where
  "weekDay n = (n + 4) mod 7"

text \<open>\<open>MakeDay(year, month, date)\<close> with a month index that may lie outside 0 to 11.\<close>

definition MakeDay :: "int \<Rightarrow> int \<Rightarrow> int \<Rightarrow> int" where
  "MakeDay y m dt = daysFromCivil (y + m div 12) (m mod 12 + 1) 1 + dt - 1"

definition TimeClip :: "int \<Rightarrow> int option" where
  "TimeClip t = (if \<bar>t\<bar> \<le> maxTime then Some t else None)"

text \<open>\<open>ToIntegerOrInfinity\<close> of a finite number; \<open>None\<close> for \<open>NaN\<close> and the infinities.\<close>

definition toInt :: "jsnum \<Rightarrow> int option" where
  "toInt x = (case x of Fin r \<Rightarrow> Some (if 0 \<le> r then \<lfloor>r\<rfloor> else \<lceil>r\<rceil>) | _ \<Rightarrow> None)"

text \<open>
  \<open>new Date(y, m, d)\<close>: local midnight of the day built from the three numbers; a year from
  0 to 99 means 1900 plus that. The date is invalid when an argument is not finite or the
  time is out of range.
\<close>

definition newDate :: "int \<Rightarrow> jsnum \<Rightarrow> jsnum \<Rightarrow> jsnum \<Rightarrow> int option" where
  "newDate tz y m d =
     (case (toInt y, toInt m, toInt d) of
        (Some yi, Some mi, Some di) \<Rightarrow>
          (let yr = (if 0 \<le> yi \<and> yi \<le> 99 then 1900 + yi else yi)
           in if \<bar>MakeDay yr mi 1 * msPerDay\<bar> \<le> maxTime
              then TimeClip (MakeDay yr mi di * msPerDay - tz)
              else None)
      | _ \<Rightarrow> None)"

text \<open>\<open>getDay()\<close> and \<open>getDate()\<close>, in local time; \<open>None\<close> is \<open>NaN\<close>.\<close>

definition getDay :: "int \<Rightarrow> int option \<Rightarrow> int option" where
  "getDay tz dv = map_option (\<lambda>t. weekDay ((t + tz) div msPerDay)) dv"

definition getDate :: "int \<Rightarrow> int option \<Rightarrow> int option" where
  "getDate tz dv = map_option (\<lambda>t. snd (snd (civilFromDays ((t + tz) div msPerDay)))) dv"

text \<open>
  \<open>setDate(dt)\<close>: \<open>MakeDay(YearFromTime(t), MonthFromTime(t), dt)\<close> for the local time \<open>t\<close> of
  the date itself is the first day of its month plus \<open>dt - 1\<close>, that is its own day less
  its day of the month plus \<open>dt\<close>; the time within the day is kept.
\<close>

definition setDate :: "int \<Rightarrow> int option \<Rightarrow> int option \<Rightarrow> int option" where
  "setDate tz dt dv =
     (case (dv, dt) of
        (Some t, Some k) \<Rightarrow>
          (let lt = t + tz;
               n = lt div msPerDay;
               dom = snd (snd (civilFromDays n))
           in TimeClip ((n - dom + k) * msPerDay + lt mod msPerDay - tz))
      | _ \<Rightarrow> None)"

definition pad :: "nat \<Rightarrow> int \<Rightarrow> string" where
  "pad w k = replicate (w - length (showNat (nat k))) (CHR ''0'') @ showNat (nat k)"

text \<open>The date part of \<open>toISOString()\<close>: four digits for a year from 0 to 9999, a sign and
  six digits otherwise.\<close>

definition isoDate :: "int \<Rightarrow> string" where
  "isoDate n =
     (case civilFromDays n of
        (y, m, d) \<Rightarrow>
          (if 0 \<le> y \<and> y \<le> 9999 then pad 4 y
           else (if y < 0 then ''-'' else ''+'') @ pad 6 \<bar>y\<bar>)
          @ ''-'' @ pad 2 m @ ''-'' @ pad 2 d)"

definition isoTime :: "int \<Rightarrow> string" where
  "isoTime ms =
     ''T'' @ pad 2 (ms div 3600000) @ '':'' @ pad 2 (ms div 60000 mod 60) @ '':''
     @ pad 2 (ms div 1000 mod 60) @ ''.'' @ pad 3 (ms mod 1000) @ ''Z''"

text \<open>\<open>toISOString()\<close> throws a \<open>RangeError\<close> on an invalid date.\<close>

definition toISOString :: "int option \<Rightarrow> error + string" where
  "toISOString dv =
     (case dv of
        None \<Rightarrow> Inl RangeError
      | Some t \<Rightarrow> Inr (isoDate (t div msPerDay) @ isoTime (t mod msPerDay)))"

subsection \<open>\<open>getWeekSunday\<close> and \<open>groupByWeek\<close>\<close>

text \<open>The \<open>i\<close>-th element of \<open>dateStr.split('-').map(Number)\<close>, \<open>NaN\<close> in arithmetic when
  it is missing.\<close>

definition part :: "jsnum list \<Rightarrow> nat \<Rightarrow> jsnum" where
  "part ps i = (if i < length ps then ps ! i else NaN)"

definition minus :: "int option \<Rightarrow> int option \<Rightarrow> int option" where
  "minus a b = (case (a, b) of (Some x, Some y) \<Rightarrow> Some (x - y) | _ \<Rightarrow> None)"

definition getWeekSunday :: "int \<Rightarrow> string \<Rightarrow> error + string" where
  "getWeekSunday tz dateStr =
     (let ps = map Number (splitOn CHR ''-'' dateStr);
          y = part ps 0; m = part ps 1; d = part ps 2;
          date0 = newDate tz y (numAdd m (Fin (- 1))) d;
          wd = getDay tz date0;
          date1 = setDate tz (minus (getDate tz date0) wd) date0
      in (case toISOString date1 of
            Inl err \<Rightarrow> Inl err
          | Inr s \<Rightarrow> Inr (take 10 s)))"

record week =
  sunday :: string
  weekDays :: "json list"

text \<open>
  The key of a day: \<open>getWeekSunday(day.date)\<close>. Only a string has \<open>.split\<close>; reading
  \<open>date\<close> off \<open>null\<close> throws as well.
\<close>

definition weekKey :: "int \<Rightarrow> json \<Rightarrow> error + string" where
  "weekKey tz day =
     (case readProp day ''date'' of
        Inl err \<Rightarrow> Inl err
      | Inr (Some (JStr s)) \<Rightarrow> getWeekSunday tz s
      | Inr _ \<Rightarrow> Inl TypeError)"

text \<open>
  The body of \<open>days.forEach\<close>: \<open>weeks\<close> holds the buckets in the order they were created
  (\<open>map\<close> finds a bucket by its key; no key is a name inherited from \<open>Object.prototype\<close>).
\<close>

definition addToWeek :: "string \<Rightarrow> json \<Rightarrow> week list \<Rightarrow> week list" where
  "addToWeek k day weeks =
     (let weeks' = (if k \<in> sunday ` set weeks then weeks
                    else weeks @ [\<lparr>sunday = k, weekDays = []\<rparr>])
      in map (\<lambda>w. if sunday w = k then w\<lparr>weekDays := weekDays w @ [day]\<rparr> else w) weeks')"

fun weekLoop :: "int \<Rightarrow> json list \<Rightarrow> week list \<Rightarrow> error + week list" where
  "weekLoop tz [] weeks = Inr weeks"
| "weekLoop tz (day # rest) weeks =
     (case weekKey tz day of
        Inl err \<Rightarrow> Inl err
      | Inr k \<Rightarrow> weekLoop tz rest (addToWeek k day weeks))"

text \<open>\<open>groupByWeek(days)\<close>, with \<open>lc\<close> for \<open>localeCompare\<close> in the final sort.\<close>

definition groupByWeek :: "int \<Rightarrow> (string \<Rightarrow> string \<Rightarrow> int) \<Rightarrow> json list \<Rightarrow> error + week list" where
  "groupByWeek tz lc ds =
     (case weekLoop tz ds [] of
        Inl err \<Rightarrow> Inl err
      | Inr weeks \<Rightarrow> Inr (sortBy (\<lambda>a b. lc (sunday b) (sunday a)) weeks))"

text \<open>Sample days: a Sunday, the Saturday after it, and offsets of Tokyo and San Diego.\<close>

definition sundayDay :: json where
  "sundayDay = JObj [(''date'', JStr ''2025-06-15''), (''images'', JArr [])]"

definition saturdayDay :: json where
  "saturdayDay = JObj [(''date'', JStr ''2025-06-21''), (''images'', JArr [])]"

definition mondayNextDay :: json where
  "mondayNextDay = JObj [(''date'', JStr ''2025-06-23''), (''images'', JArr [])]"

definition tzTokyo :: int where
  "tzTokyo = 32400000"

definition tzSanDiego :: int where
  "tzSanDiego = - 25200000"

text \<open>The days of the bucket with key \<open>k\<close>, if there is one.\<close>

definition bucket :: "week list \<Rightarrow> string \<Rightarrow> json list option" where
  "bucket weeks k = map_of (map (\<lambda>w. (sunday w, weekDays w)) weeks) k"

text \<open>The days of a list whose key is \<open>k\<close>, in their order.\<close>

definition keyed :: "int \<Rightarrow> string \<Rightarrow> json list \<Rightarrow> json list" where
  "keyed tz k ds = filter (\<lambda>day. weekKey tz day = Inr k) ds"

text \<open>
  The day number of a date string of the form \<open>YYYY-MM-DD\<close>: digits at the eight places,
  a year of at least 100, a month from 1 to 12 and a day from 1 to 31 (a day beyond the
  end of its month counts on into the next, as \<open>new Date\<close> has it).
\<close>

fun dateNumber :: "string \<Rightarrow> int option" where
  "dateNumber [y1, y2, y3, y4, s1, m1, m2, s2, d1, d2] =
     (let y = 1000 * digitVal y1 + 100 * digitVal y2 + 10 * digitVal y3 + digitVal y4;
          m = 10 * digitVal m1 + digitVal m2;
          d = 10 * digitVal d1 + digitVal d2
      in if list_all isDigit [y1, y2, y3, y4, m1, m2, d1, d2] \<and> s1 = CHR ''-'' \<and> s2 = CHR ''-''
            \<and> 100 \<le> y \<and> 1 \<le> m \<and> m \<le> 12 \<and> 1 \<le> d \<and> d \<le> 31
         then Some (daysFromCivil y m d) else None)"
| "dateNumber _ = None"

text \<open>A day record with a date of that form.\<close>

definition datedDay :: "json \<Rightarrow> bool" where
  "datedDay day = (case field day ''date'' of Some (JStr s) \<Rightarrow> dateNumber s \<noteq> None | _ \<Rightarrow> False)"
section \<open>Properties of tag derivation\<close>

lemma overflowBound_large: "(1000000::rat) < overflowBound"
  unfolding overflowBound_def by simp

lemma clip_small: "\<bar>r\<bar> \<le> 1000000 \<Longrightarrow> clip r = Fin r"
  using overflowBound_large unfolding clip_def by auto

lemma isDigit_not_special:
  assumes "isDigit c"
  shows "\<not> isWhite c" "c \<noteq> CHR ''-''" "c \<noteq> CHR ''+''" "c \<noteq> CHR '':''" "c \<noteq> CHR ''I''"
    "c \<noteq> CHR ''.''" "\<not> isWhite2 c x" "\<not> isWhite2 x c" "\<not> isWhite3 c x y"
    "\<not> isWhite3 x y c"
  using assms by (auto simp: isDigit_def isWhite_def isWhite2_def isWhite3_def Let_def)

lemma digitVal_le: "isDigit c \<Longrightarrow> digitVal c \<le> 9"
  by (auto simp: isDigit_def digitVal_def)

lemma digitVal_ge: "isDigit c \<Longrightarrow> 0 \<le> digitVal c"
  by (auto simp: isDigit_def digitVal_def)

lemma clip_of_int: "0 \<le> n \<Longrightarrow> n \<le> 1000000 \<Longrightarrow> clip (of_int n) = Fin (of_int n)"
proof (rule clip_small)
  assume "0 \<le> n" "n \<le> 1000000"
  then have "(of_int n :: rat) \<le> of_int 1000000" "(0::rat) \<le> of_int n"
    by (simp_all only: of_int_le_iff of_int_0_le_iff)
  then show "\<bar>of_int n :: rat\<bar> \<le> 1000000" by simp
qed

lemma unsignedDecimal_two_digits:
  assumes "isDigit a" "isDigit b"
  shows "unsignedDecimal [a, b] = clip (of_int (digitsVal [a, b]))"
  using assms by (simp add: unsignedDecimal_def isDigit_not_special scale10_def)

lemma Number_two_digits:
  assumes "isDigit a" "isDigit b"
  shows "Number [a, b] = Fin (of_int (10 * digitVal a + digitVal b))"
proof -
  define n where "n = 10 * digitVal a + digitVal b"
  have dv: "digitsVal [a, b] = n"
    by (simp add: digitsVal_def n_def)
  have t: "trim [a, b] = [a, b]"
    using assms by (simp add: trim_def isDigit_not_special)
  have r: "radixLiteral [a, b] = None"
    by (simp add: radixLiteral_def)
  have "0 \<le> n" "n \<le> 1000000"
    using digitVal_le[OF assms(1)] digitVal_le[OF assms(2)]
      digitVal_ge[OF assms(1)] digitVal_ge[OF assms(2)] by (simp_all add: n_def)
  then have c: "clip (of_int n) = Fin (of_int n)"
    by (rule clip_of_int)
  have "Number [a, b] = unsignedDecimal [a, b]"
    using assms by (simp add: Number_def t r isDigit_not_special)
  also have "\<dots> = Fin (of_int n)"
    by (simp only: unsignedDecimal_two_digits[OF assms] dv c)
  finally show ?thesis by (simp only: n_def)
qed

lemma splitOn_HHMM:
  assumes "isDigit a" "isDigit b" "isDigit c" "isDigit d"
  shows "splitOn CHR '':'' [a, b, CHR '':'', c, d] = [[a, b], [c, d]]"
  using assms by (simp add: isDigit_not_special)

lemma tagOfTime_HHMM:
  assumes "isDigit a" "isDigit b" "isDigit c" "isDigit d"
  shows "tagOfTime [a, b, CHR '':'', c, d] =
    (if (of_int (10 * digitVal a + digitVal b) + of_int (10 * digitVal c + digitVal d) / 60 :: rat) < 12
     then ''sunrise'' else ''sunset'')"
proof -
  define h where "h = (of_int (10 * digitVal a + digitVal b) :: rat)"
  define m where "m = (of_int (10 * digitVal c + digitVal d) :: rat)"
  have "10 * digitVal a + digitVal b \<le> 99"
    using digitVal_le[OF assms(1)] digitVal_le[OF assms(2)] by simp
  then have "h \<le> of_int 99" unfolding h_def by (simp only: of_int_le_iff)
  have "0 \<le> 10 * digitVal a + digitVal b" "0 \<le> 10 * digitVal c + digitVal d"
    using assms digitVal_ge by fastforce+
  then have "0 \<le> h" "0 \<le> m" unfolding h_def m_def by (simp_all only: of_int_0_le_iff)
  have "10 * digitVal c + digitVal d \<le> 99"
    using digitVal_le[OF assms(3)] digitVal_le[OF assms(4)] by simp
  then have "m \<le> of_int 99" unfolding m_def by (simp only: of_int_le_iff)
  from \<open>0 \<le> h\<close> \<open>0 \<le> m\<close> \<open>h \<le> of_int 99\<close> \<open>m \<le> of_int 99\<close> have "\<bar>h + m / 60\<bar> \<le> 1000000" by simp
  then have c: "clip (h + m / 60) = Fin (h + m / 60)" by (rule clip_small)
  have hn: "Number [a, b] = Fin h" and mn: "Number [c, d] = Fin m"
    by (simp_all only: Number_two_digits assms h_def m_def)
  have "hourPlusMinute [a, b, CHR '':'', c, d] = numAdd (Fin h) (numDivBy (Fin m) 60)"
    unfolding hourPlusMinute_def splitOn_HHMM[OF assms] by (simp only: list.map hn mn list.case)
  then have "hourPlusMinute [a, b, CHR '':'', c, d] = Fin (h + m / 60)"
    by (simp add: c)
  then show ?thesis by (simp add: tagOfTime_def h_def m_def)
qed


text \<open>
  C3. Tag derivation is a function of the \<open>HH:MM\<close> string alone: with \<open>h\<close> and \<open>m\<close> the two
  numbers read from it, the tag is \<open>sunrise\<close> when \<open>h + m / 60 < 12\<close> and \<open>sunset\<close>
  otherwise, for \<open>deriveTag\<close> of the build script and \<open>getTag\<close> of the site script alike;
  \<open>05:47\<close> and \<open>11:59\<close> give \<open>sunrise\<close>, \<open>12:00\<close> and \<open>20:11\<close> give \<open>sunset\<close>.
\<close>

theorem tag_derivation_HHMM:
  assumes "isDigit a" "isDigit b" "isDigit c" "isDigit d"
  shows "deriveTag (Some (JStr [a, b, CHR '':'', c, d])) =
           Inr (if (of_int (10 * digitVal a + digitVal b)
                    + of_int (10 * digitVal c + digitVal d) / 60 :: rat) < 12
                then ''sunrise'' else ''sunset'')
         \<and> getTag (Some (JStr [a, b, CHR '':'', c, d])) =
           Inr (if (of_int (10 * digitVal a + digitVal b)
                    + of_int (10 * digitVal c + digitVal d) / 60 :: rat) < 12
                then ''sunrise'' else ''sunset'')
         \<and> deriveTag (Some (JStr ''05:47'')) = Inr ''sunrise''
         \<and> deriveTag (Some (JStr ''11:59'')) = Inr ''sunrise''
         \<and> deriveTag (Some (JStr ''12:00'')) = Inr ''sunset''
         \<and> deriveTag (Some (JStr ''20:11'')) = Inr ''sunset''
         \<and> getTag (Some (JStr ''05:47'')) = Inr ''sunrise''
         \<and> getTag (Some (JStr ''11:59'')) = Inr ''sunrise''
         \<and> getTag (Some (JStr ''12:00'')) = Inr ''sunset''
         \<and> getTag (Some (JStr ''20:11'')) = Inr ''sunset''"
proof -
  have e: "tagOfTime ''05:47'' = ''sunrise''" "tagOfTime ''11:59'' = ''sunrise''"
    "tagOfTime ''12:00'' = ''sunset''" "tagOfTime ''20:11'' = ''sunset''"
    by (simp_all add: tagOfTime_HHMM isDigit_def digitVal_def)
  show ?thesis
    by (simp add: deriveTag_def tagOfTime_HHMM[OF assms] e)
qed

theorem tag_derivation_HHMM_witness:
  "isDigit CHR ''0'' \<and> isDigit CHR ''6'' \<and> isDigit CHR ''2'' \<and> isDigit CHR ''8''
   \<and> deriveTag (Some (JStr ''06:28'')) = Inr ''sunrise''
   \<and> getTag (Some (JStr ''06:28'')) = Inr ''sunrise''"
proof -
  have d: "isDigit CHR ''0''" "isDigit CHR ''6''" "isDigit CHR ''2''" "isDigit CHR ''8''"
    by (simp_all add: isDigit_def)
  show ?thesis
    using d tag_derivation_HHMM[OF d] by (simp add: digitVal_def)
qed

lemma Number_abc: "Number ''abc'' = NaN"
  by (simp add: Number_def trim_def isWhite_def isWhite2_def isWhite3_def radixLiteral_def
      unsignedDecimal_def isDigit_def hexVal_def)

lemma tagOfTime_range: "tagOfTime t = ''sunrise'' \<or> tagOfTime t = ''sunset''"
  by (simp add: tagOfTime_def)

lemma hourPlusMinute_no_colon:
  assumes "CHR '':'' \<notin> set t"
  shows "hourPlusMinute t = NaN"
proof -
  have "splitOn CHR '':'' t = [t]"
    using assms by (induction t) auto
  then have "hourPlusMinute t = numAdd (Number t) NaN"
    by (simp add: hourPlusMinute_def)
  then show ?thesis
    by (cases "Number t") simp_all
qed

text \<open>
  C8, as stated, fails: \<open>abc\<close> is a string not of \<open>HH:MM\<close> shape, and \<open>deriveTag\<close> answers
  \<open>sunset\<close> for it, not \<open>sunrise\<close> (its hour reads as \<open>NaN\<close>, and \<open>NaN < 12\<close> is false).
\<close>

theorem deriveTag_unparseable_counterexample:
  "deriveTag (Some (JStr ''abc'')) = Inr ''sunset''
   \<and> deriveTag (Some (JStr ''abc'')) \<noteq> Inr ''sunrise''"
proof -
  have "hourPlusMinute ''abc'' = NaN"
    by (rule hourPlusMinute_no_colon) simp
  then show ?thesis
    by (simp add: deriveTag_def tagOfTime_def)
qed

text \<open>
  C8, amended. \<open>deriveTag\<close> does not throw on an absent time, on \<open>null\<close>, or on any string:
  an absent, \<open>null\<close> or empty time gives \<open>sunrise\<close>; every string gives \<open>sunrise\<close> or \<open>sunset\<close>;
  and a non-empty string whose hour plus minute is \<open>NaN\<close> (no colon in it, or a part that is
  not a number) gives \<open>sunset\<close>.
\<close>

theorem deriveTag_never_throws:
  "deriveTag None = Inr ''sunrise''
   \<and> deriveTag (Some JNull) = Inr ''sunrise''
   \<and> deriveTag (Some (JStr [])) = Inr ''sunrise''
   \<and> (deriveTag (Some (JStr t)) = Inr ''sunrise'' \<or> deriveTag (Some (JStr t)) = Inr ''sunset'')
   \<and> (t \<noteq> [] \<and> hourPlusMinute t = NaN \<longrightarrow> deriveTag (Some (JStr t)) = Inr ''sunset'')
   \<and> (t \<noteq> [] \<and> CHR '':'' \<notin> set t \<longrightarrow> deriveTag (Some (JStr t)) = Inr ''sunset'')"
  using tagOfTime_range[of t] hourPlusMinute_no_colon[of t]
  by (auto simp: deriveTag_def tagOfTime_def)

theorem deriveTag_never_throws_witness:
  "''noon'' \<noteq> [] \<and> CHR '':'' \<notin> set ''noon'' \<and> hourPlusMinute ''noon'' = NaN
   \<and> deriveTag (Some (JStr ''noon'')) = Inr ''sunset''"
proof -
  have h: "hourPlusMinute ''noon'' = NaN"
    by (rule hourPlusMinute_no_colon) simp
  show ?thesis
    using h deriveTag_never_throws[of "''noon''"] by simp
qed

section \<open>Properties of the build script\<close>













lemma mset_insertBy: "mset (insertBy cmp x ys) = add_mset x (mset ys)"
  by (induction ys) auto

lemma mset_sortBy: "mset (sortBy cmp xs) = mset xs"
  by (induction xs) (auto simp: sortBy_def mset_insertBy)

lemma set_sortBy: "set (sortBy cmp xs) = set xs"
  by (metis mset_sortBy set_mset_mset)

lemma sortBy_short: "length xs < 2 \<Longrightarrow> sortBy cmp xs = xs"
  by (cases xs; cases "tl xs") (auto simp: sortBy_def)

lemma mset_objectValues: "mset (objectValues dm) = mset (map snd dm)"
proof -
  have "mset (objectValues dm) =
      mset (map snd (filter (\<lambda>(k, v). isArrayIndex k) dm))
      + mset (map snd (filter (\<lambda>(k, v). \<not> isArrayIndex k) dm))"
    by (simp add: objectValues_def)
  also have "\<dots> = mset (map snd dm)"
    by (induction dm) auto
  finally show ?thesis .
qed

lemma sortImages_Some:
  assumes "sortImages lc d = Some d'"
  shows "date d' = date d \<and> location d' = location d
         \<and> images d' = sortBy (\<lambda>a b. lc (timeKey a) (timeKey b)) (images d)"
proof (cases "length (images d) < 2")
  case True
  then have "d' = d" using assms by (simp add: sortImages_def)
  then show ?thesis using sortBy_short[OF True] by simp
next
  case False
  then have "d' = d\<lparr>images := sortBy (\<lambda>a b. lc (timeKey a) (timeKey b)) (images d)\<rparr>"
    using assms by (simp add: sortImages_def split: if_splits)
  then show ?thesis by simp
qed

lemma sortAllImages_Cons:
  assumes "sortAllImages lc (d # ds) = Some r"
  obtains d' ds' where "r = d' # ds'" "sortImages lc d = Some d'" "sortAllImages lc ds = Some ds'"
  using assms by (simp split: option.splits) blast


lemma sortAllImages_member:
  "sortAllImages lc ds = Some ds' \<Longrightarrow> d' \<in> set ds' \<Longrightarrow> \<exists>d \<in> set ds. sortImages lc d = Some d'"
proof (induction ds arbitrary: ds')
  case Nil then show ?case by simp
next
  case (Cons d ds)
  from Cons.prems(1) obtain e es where "ds' = e # es" "sortImages lc d = Some e"
    "sortAllImages lc ds = Some es" by (rule sortAllImages_Cons)
  then show ?case using Cons.IH[of es] Cons.prems(2) by auto
qed

lemma build_parts:
  assumes "build lc files = Some out"
  obtains st ds where "processFiles files \<lparr>dayMap = [], warnings = []\<rparr> = Some st"
    and "sortAllImages lc (objectValues (dayMap st)) = Some ds"
    and "days out = sortBy (\<lambda>a b. lc (date b) (date a)) ds"
    and "warned out = warnings st"
  using assms by (auto simp: build_def Let_def split: option.splits)



subsection \<open>The sample run, evaluated\<close>

lemmas file_evals = fileEffect_def readProp_def field_def sidecar_def perDay_def protoKeys_def
  normalizeImage_def setProp_def locationOr_def deriveTag_def tagOfTime_HHMM isDigit_def
  digitVal_def

lemma effect_sidecarA:
  "fileEffect (snd sidecarA) = Extend ''2025-06-14'' (JStr [])
     [JObj [(''date'', JStr ''2025-06-14''), (''time'', JStr ''05:47''),
            (''src'', JStr ''a.jpg''), (''tag'', JStr ''sunrise'')]] None"
  by (simp add: sidecarA_def file_evals)

lemma effect_sidecarB:
  "fileEffect (snd sidecarB) = Extend ''2025-06-14'' (JStr ''Torrey Pines'')
     [JObj [(''date'', JStr ''2025-06-14''), (''time'', JStr ''20:11''),
            (''src'', JStr ''b.jpg''), (''location'', JStr ''Torrey Pines''),
            (''tag'', JStr ''sunset'')]] None"
  by (simp add: sidecarB_def file_evals)

lemma effect_perDayC:
  "fileEffect (snd perDayC) = Extend ''2025-06-15'' (JStr ''La Jolla Cove'')
     [JObj [(''src'', JStr ''d.jpg''), (''time'', JStr ''19:58''), (''tag'', JStr ''sunset'')],
      JObj [(''src'', JStr ''c.jpg''), (''time'', JStr ''06:02''), (''tag'', JStr ''sunrise'')]] None"
  by (simp add: perDayC_def file_evals)

lemma effect_brokenD:
  "fileEffect (snd brokenD) = Skip (ReadOrParseFailure ''Unexpected end of JSON input'')"
  by (simp add: brokenD_def fileEffect_def)

lemma processFiles_unfold:
  "processFiles (f # fs) st =
     (case applyEffect (fst f) (fileEffect (snd f)) st of None \<Rightarrow> None
      | Some st' \<Rightarrow> processFiles fs st')"
  by (cases f) simp

lemma fst_samples:
  "fst sidecarA = ''2025-06-14-a.json''" "fst sidecarB = ''2025-06-14-b.json''"
  "fst perDayC = ''2025-06-15.json''" "fst brokenD = ''broken.json''"
  by (simp_all add: sidecarA_def sidecarB_def perDayC_def brokenD_def)

lemma loop_samples:
  "processFiles sampleFiles \<lparr>dayMap = [], warnings = []\<rparr> =
     Some \<lparr>dayMap =
       [(''2025-06-14'', \<lparr>date = ''2025-06-14'', location = JStr [],
          images =
            [JObj [(''date'', JStr ''2025-06-14''), (''time'', JStr ''05:47''),
                   (''src'', JStr ''a.jpg''), (''tag'', JStr ''sunrise'')],
             JObj [(''date'', JStr ''2025-06-14''), (''time'', JStr ''20:11''),
                   (''src'', JStr ''b.jpg''), (''location'', JStr ''Torrey Pines''),
                   (''tag'', JStr ''sunset'')]]\<rparr>),
        (''2025-06-15'', \<lparr>date = ''2025-06-15'', location = JStr ''La Jolla Cove'',
          images =
            [JObj [(''src'', JStr ''d.jpg''), (''time'', JStr ''19:58''), (''tag'', JStr ''sunset'')],
             JObj [(''src'', JStr ''c.jpg''), (''time'', JStr ''06:02''), (''tag'', JStr ''sunrise'')]]\<rparr>)],
      warnings = [(''broken.json'', ReadOrParseFailure ''Unexpected end of JSON input'')]\<rparr>"
  unfolding sampleFiles_def
  by (simp only: processFiles_unfold effect_sidecarA effect_sidecarB effect_perDayC effect_brokenD
      fst_samples)
     (simp add: ensureDay_def pushImages_def warn_def)

lemma build_samples: "build codeUnitCompare sampleFiles = Some sampleBuilt"
  unfolding build_def loop_samples
  by (simp add: objectValues_def isArrayIndex_def isDigit_def sortImages_def timeOr_def timeKey_def
      field_def sortBy_def codeUnitCompare_def sampleBuilt_def)
subsection \<open>Order of the output\<close>

lemma set_insertBy: "set (insertBy cmp x ys) = insert x (set ys)"
  by (induction ys) auto

lemma sorted_wrt_insertBy:
  assumes tot: "\<And>a b. a \<in> S \<Longrightarrow> b \<in> S \<Longrightarrow> R a b \<or> R b a"
    and trans: "\<And>a b c. a \<in> S \<Longrightarrow> b \<in> S \<Longrightarrow> c \<in> S \<Longrightarrow> R a b \<Longrightarrow> R b c \<Longrightarrow> R a c"
    and agree: "\<And>a b. a \<in> S \<Longrightarrow> b \<in> S \<Longrightarrow> (cmp a b \<le> 0) = R a b"
    and x: "x \<in> S" and ys: "set ys \<subseteq> S" and srt: "sorted_wrt R ys"
  shows "sorted_wrt R (insertBy cmp x ys)"
  using ys srt
proof (induction ys)
  case Nil
  then show ?case by simp
next
  case (Cons y ys)
  have yS: "y \<in> S" and ysS: "set ys \<subseteq> S" using Cons.prems(1) by auto
  show ?case
  proof (cases "cmp x y \<le> 0")
    case True
    then have xy: "R x y" using agree[OF x yS] by simp
    have "R x z" if "z \<in> set ys" for z
    proof -
      have "R y z" using Cons.prems(2) that by simp
      then show ?thesis using trans[OF x yS _ xy] that ysS by blast
    qed
    then show ?thesis using True xy Cons.prems(2) by auto
  next
    case False
    then have "\<not> R x y" using agree[OF x yS] by simp
    then have yx: "R y x" using tot[OF x yS] by blast
    have "sorted_wrt R (insertBy cmp x ys)"
      using Cons.IH[OF ysS] Cons.prems(2) by simp
    then show ?thesis using False yx Cons.prems(2) by (auto simp: set_insertBy)
  qed
qed

lemma sorted_wrt_sortBy:
  assumes tot: "\<And>a b. a \<in> S \<Longrightarrow> b \<in> S \<Longrightarrow> R a b \<or> R b a"
    and trans: "\<And>a b c. a \<in> S \<Longrightarrow> b \<in> S \<Longrightarrow> c \<in> S \<Longrightarrow> R a b \<Longrightarrow> R b c \<Longrightarrow> R a c"
    and agree: "\<And>a b. a \<in> S \<Longrightarrow> b \<in> S \<Longrightarrow> (cmp a b \<le> 0) = R a b"
    and xs: "set xs \<subseteq> S"
  shows "sorted_wrt R (sortBy cmp xs)"
  using xs
proof (induction xs)
  case Nil
  then show ?case by (simp add: sortBy_def)
next
  case (Cons x xs)
  have s: "sortBy cmp (x # xs) = insertBy cmp x (sortBy cmp xs)"
    by (simp add: sortBy_def)
  have sub: "set (sortBy cmp xs) \<subseteq> S"
    using Cons.prems by (simp add: set_sortBy)
  have xS: "x \<in> S" using Cons.prems by simp
  have ih: "sorted_wrt R (sortBy cmp xs)"
    using Cons.IH Cons.prems by simp
  show ?case
    unfolding s by (rule sorted_wrt_insertBy[OF tot trans agree xS sub ih])
qed

lemma sortBy_by_key:
  fixes key :: "'a \<Rightarrow> string"
  assumes "agreesOn lc (key ` set xs)"
  shows "sorted_wrt (\<lambda>a b. key a \<le> key b) (sortBy (\<lambda>a b. lc (key a) (key b)) xs)"
proof (rule sorted_wrt_sortBy[where S = "set xs"])
  fix a b assume "a \<in> set xs" "b \<in> set xs"
  then show "(lc (key a) (key b) \<le> 0) = (key a \<le> key b)"
    using assms by (simp add: agreesOn_def)
qed auto

lemma sortBy_by_key_desc:
  fixes key :: "'a \<Rightarrow> string"
  assumes "agreesOn lc (key ` set xs)"
  shows "sorted_wrt (\<lambda>a b. key b \<le> key a) (sortBy (\<lambda>a b. lc (key b) (key a)) xs)"
proof (rule sorted_wrt_sortBy[where S = "set xs"])
  fix a b assume "a \<in> set xs" "b \<in> set xs"
  then show "(lc (key b) (key a) \<le> 0) = (key b \<le> key a)"
    using assms by (simp add: agreesOn_def)
qed auto

lemma codeUnitCompare_agrees: "agreesOn codeUnitCompare S"
  by (auto simp: agreesOn_def codeUnitCompare_def)


lemma timeKey_falsy: "\<not> truthy (field img ''time'') \<Longrightarrow> timeKey img = []"
  by (auto simp: timeKey_def timeOr_def split: option.splits json.splits)

lemma string_le_Nil: "(s :: string) \<le> [] \<Longrightarrow> s = []"
  by (cases s) simp_all

lemma sorted_empty_key_first:
  fixes key :: "'a \<Rightarrow> string"
  assumes "sorted_wrt (\<lambda>a b. key a \<le> key b) xs"
    and "i < length xs" "j < length xs" "key (xs ! j) = []" "key (xs ! i) \<noteq> []"
  shows "j < i"
proof (rule ccontr)
  assume "\<not> j < i"
  then have "i < j" using assms(4,5) by (cases "i = j") auto
  then have "key (xs ! i) \<le> key (xs ! j)"
    using assms(1,3) by (simp add: sorted_wrt_iff_nth_less)
  then show False using assms(4,5) string_le_Nil by simp
qed

subsection \<open>Valid files\<close>

lemma map_of_setProp_other: "k' \<noteq> k \<Longrightarrow> map_of (setProp k v fs) k' = map_of fs k'"
proof (cases "k \<in> fst ` set fs")
  case False
  assume "k' \<noteq> k"
  then show ?thesis using False by (simp add: setProp_def map_add_def split: option.splits)
next
  case True
  assume ne: "k' \<noteq> k"
  have "map_of (map (\<lambda>(a, b). if a = k then (a, v) else (a, b)) fs) k' = map_of fs k'"
    using ne by (induction fs) auto
  then show ?thesis using True by (simp add: setProp_def)
qed

lemma map_of_setProp_same: "map_of (setProp k v fs) k = Some v"
proof (cases "k \<in> fst ` set fs")
  case False
  then have "map_of fs k = None" by (simp add: map_of_eq_None_iff)
  then show ?thesis using False by (simp add: setProp_def map_add_def)
next
  case True
  then have "map_of (map (\<lambda>(a, b). if a = k then (a, v) else (a, b)) fs) k = Some v"
    by (induction fs) auto
  then show ?thesis using True by (simp add: setProp_def)
qed

lemma normalizeImage_object:
  assumes "validImage (JObj fs)"
  shows "\<exists>t. normalizeImage (JObj fs) = Inr (JObj (setProp ''tag'' t fs)) \<and> truthy (Some t)
             \<and> (truthy (map_of fs ''tag'') \<longrightarrow> map_of fs ''tag'' = Some t)"
proof (cases "truthy (map_of fs ''tag'')")
  case True
  then obtain t where "map_of fs ''tag'' = Some t" by (cases "map_of fs ''tag''") auto
  then show ?thesis using True
    by (simp add: normalizeImage_def readProp_def field_def)
next
  case False
  have "\<exists>s. deriveTag (map_of fs ''time'') = Inr s \<and> s \<noteq> []"
  proof (cases "truthy (map_of fs ''time'')")
    case False
    then show ?thesis by (simp add: deriveTag_def)
  next
    case True
    then obtain s where "map_of fs ''time'' = Some (JStr s)"
      using assms by (auto simp: validImage_def split: option.splits json.splits)
    then show ?thesis using True tagOfTime_range[of s] by (auto simp: deriveTag_def)
  qed
  then obtain s where s: "deriveTag (map_of fs ''time'') = Inr s" "s \<noteq> []" by blast
  have "normalizeImage (JObj fs) = Inr (JObj (setProp ''tag'' (JStr s) fs))"
    using False s by (simp add: normalizeImage_def readProp_def field_def)
  moreover have "truthy (Some (JStr s))" using s by simp
  ultimately show ?thesis using False by blast
qed

lemma normalizeImage_valid:
  assumes "validImage img"
  shows "\<exists>img'. normalizeImage img = Inr img' \<and> timeOr img' \<noteq> None
               \<and> field img' ''time'' = field img ''time''"
proof -
  from assms obtain fs where img: "img = JObj fs"
    by (auto simp: validImage_def split: json.splits)
  from normalizeImage_object[OF assms[unfolded img]] obtain t where
    n: "normalizeImage (JObj fs) = Inr (JObj (setProp ''tag'' t fs))" by blast
  have tm: "field (JObj (setProp ''tag'' t fs)) ''time'' = map_of fs ''time''"
    by (simp add: field_def map_of_setProp_other)
  have "timeOr (JObj (setProp ''tag'' t fs)) \<noteq> None"
    using assms unfolding img timeOr_def tm
    by (auto simp: validImage_def split: option.splits json.splits)
  then show ?thesis using n tm by (simp add: img field_def)
qed

lemma normalizeEach_valid:
  assumes "list_all validImage imgs"
  shows "\<exists>js. normalizeEach imgs = (js, False) \<and> map normalizeImage imgs = map Inr js
              \<and> list_all (\<lambda>i. timeOr i \<noteq> None) js"
  using assms
proof (induction imgs)
  case Nil
  then show ?case by simp
next
  case (Cons x xs)
  then obtain js where "normalizeEach xs = (js, False)" "map normalizeImage xs = map Inr js"
    "list_all (\<lambda>i. timeOr i \<noteq> None) js" by auto
  moreover obtain x' where "normalizeImage x = Inr x'" "timeOr x' \<noteq> None"
    using normalizeImage_valid[of x] Cons.prems by auto
  ultimately show ?case by simp
qed

lemma validFile_effect:
  assumes "validFile f"
  shows "\<exists>loc imgs. fileEffect (snd f) = Extend (fileDate f) loc imgs None
                   \<and> list_all (\<lambda>i. timeOr i \<noteq> None) imgs"
proof -
  from assms obtain data where c0: "snd f = Parsed data"
    by (cases "snd f") (auto simp: validFile_def)
  with assms obtain fs where c: "snd f = Parsed (JObj fs)"
    by (cases data) (auto simp: validFile_def)
  with assms obtain dv where dv: "map_of fs ''date'' = Some dv"
    by (cases "map_of fs ''date''") (auto simp: validFile_def)
  with assms c obtain d where d: "map_of fs ''date'' = Some (JStr d)" "d \<noteq> []" "d \<notin> set protoKeys"
    by (cases dv) (auto simp: validFile_def)
  have fd: "fileDate f = d" by (simp add: fileDate_def c field_def d)
  show ?thesis
  proof (cases "truthy (map_of fs ''src'')")
    case True
    then have "validImage (JObj fs)" using assms by (simp add: validFile_def c d)
    then obtain img' where "normalizeImage (JObj fs) = Inr img'" "timeOr img' \<noteq> None"
      using normalizeImage_valid by blast
    then show ?thesis using True d
      by (simp add: fileEffect_def c readProp_def field_def sidecar_def fd)
  next
    case False
    have v: "(case map_of fs ''images'' of Some (JArr imgs) \<Rightarrow> list_all validImage imgs | _ \<Rightarrow> False)"
      using assms False by (simp add: validFile_def c d)
    then obtain iv where iv: "map_of fs ''images'' = Some iv"
      by (cases "map_of fs ''images''") auto
    with v obtain imgs where im: "map_of fs ''images'' = Some (JArr imgs)" "list_all validImage imgs"
      by (cases iv) auto
    then obtain js where "normalizeEach imgs = (js, False)" "list_all (\<lambda>i. timeOr i \<noteq> None) js"
      using normalizeEach_valid by blast
    then show ?thesis using False d im
      by (simp add: fileEffect_def c readProp_def field_def perDay_def fd)
  qed
qed




subsection \<open>The run as a function of the files\<close>

lemma processFiles_Cons:
  "processFiles (f # fs) st =
     (case applyEffect (fst f) (fileEffect (snd f)) st of None \<Rightarrow> None
      | Some st' \<Rightarrow> processFiles fs st')"
  by (cases f) simp

lemma applyEffect_result:
  assumes "fileEffect (snd f) \<noteq> OutsideModel"
  shows "applyEffect (fst f) (fileEffect (snd f)) st =
     Some \<lparr>dayMap = dayMapAfter [f] (dayMap st), warnings = warnings st @ warningOf f\<rparr>"
proof (cases "fileEffect (snd f)")
  case (Skip r)
  then show ?thesis by (simp add: warn_def warningOf_def fileWarning_def)
next
  case (Extend d loc imgs w)
  then show ?thesis
    by (cases w) (simp_all add: warn_def warningOf_def fileWarning_def Let_def)
next
  case Nothing
  then show ?thesis by (simp add: warningOf_def fileWarning_def)
next
  case OutsideModel
  then show ?thesis using assms by simp
qed

lemma applyEffect_None: "applyEffect n e st = None \<longleftrightarrow> e = OutsideModel"
  by (cases e) (simp_all add: Let_def)

lemma dayMapAfter_append: "dayMapAfter (fs @ gs) dm = dayMapAfter gs (dayMapAfter fs dm)"
  by (induction fs arbitrary: dm) simp_all

lemma processFiles_iff:
  "processFiles fs st = Some st' \<longleftrightarrow>
     (\<forall>f \<in> set fs. fileEffect (snd f) \<noteq> OutsideModel)
     \<and> st' = \<lparr>dayMap = dayMapAfter fs (dayMap st),
              warnings = warnings st @ concat (map warningOf fs)\<rparr>"
proof (induction fs arbitrary: st)
  case Nil
  then show ?case by auto
next
  case (Cons f fs)
  show ?case
  proof (cases "fileEffect (snd f) = OutsideModel")
    case True
    then show ?thesis by (simp add: processFiles_Cons)
  next
    case False
    have "dayMapAfter (f # fs) (dayMap st) = dayMapAfter fs (dayMapAfter [f] (dayMap st))"
      by simp
    then show ?thesis
      using False Cons.IH
      by (simp only: processFiles_Cons applyEffect_result[OF False] option.case)
         (auto simp del: dayMapAfter.simps)
  qed
qed

lemma dayMapAfter_filter:
  "dayMapAfter (filter (\<lambda>f. fileKey f \<noteq> None) fs) dm = dayMapAfter fs dm"
proof (induction fs arbitrary: dm)
  case Nil
  then show ?case by simp
next
  case (Cons f fs)
  then show ?case by (cases "fileEffect (snd f)") (simp_all add: fileKey_def)
qed

lemma build_iff:
  "build lc files = Some out \<longleftrightarrow>
     (\<forall>f \<in> set files. fileEffect (snd f) \<noteq> OutsideModel)
     \<and> (\<exists>ds. sortAllImages lc (objectValues (dayMapAfter files [])) = Some ds
          \<and> out = \<lparr>days = sortBy (\<lambda>a b. lc (date b) (date a)) ds,
                    warned = concat (map warningOf files),
                    dayCount = length (sortBy (\<lambda>a b. lc (date b) (date a)) ds),
                    imageCount = foldl (\<lambda>n d. n + length (images d)) 0
                                   (sortBy (\<lambda>a b. lc (date b) (date a)) ds)\<rparr>)"
proof (cases "\<forall>f \<in> set files. fileEffect (snd f) \<noteq> OutsideModel")
  case False
  then have "processFiles files \<lparr>dayMap = [], warnings = []\<rparr> = None"
    using processFiles_iff[of files "\<lparr>dayMap = [], warnings = []\<rparr>"]
    by (metis not_Some_eq)
  then show ?thesis using False by (simp add: build_def)
next
  case True
  then have "processFiles files \<lparr>dayMap = [], warnings = []\<rparr> =
      Some \<lparr>dayMap = dayMapAfter files [], warnings = concat (map warningOf files)\<rparr>"
    using processFiles_iff[of files "\<lparr>dayMap = [], warnings = []\<rparr>"] by simp
  then show ?thesis using True
    by (auto simp: build_def Let_def split: option.splits)
qed

lemma sortAllImages_total:
  "(\<forall>d \<in> set ds. list_all (\<lambda>i. timeOr i \<noteq> None) (images d)) \<Longrightarrow>
   \<exists>ds'. sortAllImages lc ds = Some ds'"
proof (induction ds)
  case Nil
  then show ?case by simp
next
  case (Cons d ds)
  then obtain ds' where "sortAllImages lc ds = Some ds'" by auto
  moreover have "\<exists>d'. sortImages lc d = Some d'"
    using Cons.prems by (simp add: sortImages_def)
  ultimately show ?case by auto
qed


lemma dayMapAfter_images:
  assumes "\<forall>(k, r) \<in> set dm. \<forall>i \<in> set (images r). P i"
    and "\<forall>f \<in> set fs. \<forall>i \<in> set (contributed f). P i"
  shows "\<forall>(k, r) \<in> set (dayMapAfter fs dm). \<forall>i \<in> set (images r). P i"
  using assms
proof (induction fs arbitrary: dm)
  case Nil
  then show ?case by simp
next
  case (Cons f fs)
  have step: "\<forall>(k, r) \<in> set (case fileEffect (snd f) of
                     Extend d loc imgs w \<Rightarrow> pushImages d imgs (ensureDay d loc dm)
                   | _ \<Rightarrow> dm). \<forall>i \<in> set (images r). P i"
  proof (cases "fileEffect (snd f)")
    case (Extend d loc imgs w)
    then have "\<forall>i \<in> set imgs. P i"
      using Cons.prems(2) by (simp add: contributed_def)
    then show ?thesis using Cons.prems(1) Extend
      by (fastforce simp: pushImages_def ensureDay_def split: if_splits)
  qed (use Cons.prems(1) in simp_all)
  show ?case
    using Cons.IH[OF step] Cons.prems(2) by simp
qed

lemma build_total:
  assumes "\<forall>f \<in> set files. fileEffect (snd f) \<noteq> OutsideModel"
    and "\<forall>f \<in> set files. list_all (\<lambda>i. timeOr i \<noteq> None) (contributed f)"
  shows "\<exists>out. build lc files = Some out"
proof -
  have "\<forall>(k, r) \<in> set (dayMapAfter files []). \<forall>i \<in> set (images r). timeOr i \<noteq> None"
    by (rule dayMapAfter_images) (use assms(2) in \<open>auto simp: list_all_iff\<close>)
  moreover have "set (objectValues (dayMapAfter files [])) = snd ` set (dayMapAfter files [])"
    by (metis mset_objectValues set_map set_mset_mset)
  ultimately have "\<forall>d \<in> set (objectValues (dayMapAfter files [])).
      list_all (\<lambda>i. timeOr i \<noteq> None) (images d)"
    by (auto simp: list_all_iff)
  then obtain ds where "sortAllImages lc (objectValues (dayMapAfter files [])) = Some ds"
    using sortAllImages_total by blast
  then show ?thesis using assms(1) by (simp add: build_iff)
qed

lemma validFile_readouts:
  assumes "validFile f"
  shows "fileKey f = Some (fileDate f)" "fileWarning f = None" "warningOf f = []"
    "fileEffect (snd f) \<noteq> OutsideModel" "list_all (\<lambda>i. timeOr i \<noteq> None) (contributed f)"
  using validFile_effect[OF assms]
  by (auto simp: fileKey_def fileWarning_def warningOf_def contributed_def)

lemma build_valid_total:
  assumes "\<forall>f \<in> set files. validFile f"
  shows "\<exists>out. build lc files = Some out \<and> warned out = []"
proof -
  obtain out where out: "build lc files = Some out"
    using build_total[of files lc] assms validFile_readouts(4,5) by blast
  then have "warned out = concat (map warningOf files)"
    by (auto simp: build_iff)
  also have "\<dots> = []"
    using assms validFile_readouts(3) by (induction files) auto
  finally show ?thesis using out by simp
qed





subsection \<open>Order of the output, and the collation\<close>

lemma tagOfTime_0547: "tagOfTime ''0547'' = ''sunset''"
proof -
  have "hourPlusMinute ''0547'' = NaN" by (rule hourPlusMinute_no_colon) simp
  then show ?thesis by (simp add: tagOfTime_def)
qed

lemma effect_plainTimeA:
  "fileEffect (snd plainTimeA) = Extend ''2025-06-14'' (JStr [])
     [JObj [(''date'', JStr ''2025-06-14''), (''time'', JStr ''0547''),
            (''src'', JStr ''a.jpg''), (''tag'', JStr ''sunset'')]] None"
  by (simp add: plainTimeA_def fileEffect_def readProp_def field_def sidecar_def protoKeys_def
      normalizeImage_def setProp_def locationOr_def deriveTag_def tagOfTime_0547)

lemma effect_colonTimeB:
  "fileEffect (snd colonTimeB) = Extend ''2025-06-14'' (JStr [])
     [JObj [(''date'', JStr ''2025-06-14''), (''time'', JStr ''05:47''),
            (''src'', JStr ''b.jpg''), (''tag'', JStr ''sunrise'')]] None"
  by (simp add: colonTimeB_def file_evals)

lemma punctuationFirst_times:
  "punctuationFirst ''0547'' ''05:47'' = 1" "punctuationFirst ''05:47'' ''0547'' = - 1"
  by (simp_all add: punctuationFirst_def collationRank_def isDigit_def)

text \<open>
  C2, as stated, fails: the order is that of \<open>localeCompare\<close>, which is not the
  lexicographic order of the strings on every input. Under a collation that puts the colon
  before the digits, the image with time \<open>05:47\<close> is written before the one with time
  \<open>0547\<close>, although \<open>0547\<close> is the smaller string.
\<close>

theorem collation_order_not_lexicographic_counterexample:
  "validFile plainTimeA \<and> validFile colonTimeB
   \<and> build punctuationFirst [plainTimeA, colonTimeB]
       = Some \<lparr>days =
                 [\<lparr>date = ''2025-06-14'', location = JStr [],
                   images =
                     [JObj [(''date'', JStr ''2025-06-14''), (''time'', JStr ''05:47''),
                            (''src'', JStr ''b.jpg''), (''tag'', JStr ''sunrise'')],
                      JObj [(''date'', JStr ''2025-06-14''), (''time'', JStr ''0547''),
                            (''src'', JStr ''a.jpg''), (''tag'', JStr ''sunset'')]]\<rparr>],
               warned = [], dayCount = 1, imageCount = 2\<rparr>
   \<and> ''0547'' < ''05:47''
   \<and> \<not> sorted_wrt (\<lambda>a b. timeKey a \<le> timeKey b)
         [JObj [(''date'', JStr ''2025-06-14''), (''time'', JStr ''05:47''),
                (''src'', JStr ''b.jpg''), (''tag'', JStr ''sunrise'')],
          JObj [(''date'', JStr ''2025-06-14''), (''time'', JStr ''0547''),
                (''src'', JStr ''a.jpg''), (''tag'', JStr ''sunset'')]]"
proof -
  have v: "validFile plainTimeA" "validFile colonTimeB"
    by (simp_all add: validFile_def validImage_def plainTimeA_def colonTimeB_def protoKeys_def)
  have f: "fst plainTimeA = ''2025-06-14-a.json''" "fst colonTimeB = ''2025-06-14-b.json''"
    by (simp_all add: plainTimeA_def colonTimeB_def)
  have l: "processFiles [plainTimeA, colonTimeB] \<lparr>dayMap = [], warnings = []\<rparr> =
     Some \<lparr>dayMap =
       [(''2025-06-14'', \<lparr>date = ''2025-06-14'', location = JStr [],
          images =
            [JObj [(''date'', JStr ''2025-06-14''), (''time'', JStr ''0547''),
                   (''src'', JStr ''a.jpg''), (''tag'', JStr ''sunset'')],
             JObj [(''date'', JStr ''2025-06-14''), (''time'', JStr ''05:47''),
                   (''src'', JStr ''b.jpg''), (''tag'', JStr ''sunrise'')]]\<rparr>)],
      warnings = []\<rparr>"
    by (simp only: processFiles_unfold effect_plainTimeA effect_colonTimeB f)
       (simp add: ensureDay_def pushImages_def warn_def)
  have b: "build punctuationFirst [plainTimeA, colonTimeB]
       = Some \<lparr>days =
                 [\<lparr>date = ''2025-06-14'', location = JStr [],
                   images =
                     [JObj [(''date'', JStr ''2025-06-14''), (''time'', JStr ''05:47''),
                            (''src'', JStr ''b.jpg''), (''tag'', JStr ''sunrise'')],
                      JObj [(''date'', JStr ''2025-06-14''), (''time'', JStr ''0547''),
                            (''src'', JStr ''a.jpg''), (''tag'', JStr ''sunset'')]]\<rparr>],
               warned = [], dayCount = 1, imageCount = 2\<rparr>"
    unfolding build_def l
    by (simp add: objectValues_def isArrayIndex_def isDigit_def sortImages_def timeOr_def
        timeKey_def field_def sortBy_def punctuationFirst_times)
  have o: "''0547'' < ''05:47''" by simp
  have n: "\<not> sorted_wrt (\<lambda>a b. timeKey a \<le> timeKey b)
         [JObj [(''date'', JStr ''2025-06-14''), (''time'', JStr ''05:47''),
                (''src'', JStr ''b.jpg''), (''tag'', JStr ''sunrise'')],
          JObj [(''date'', JStr ''2025-06-14''), (''time'', JStr ''0547''),
                (''src'', JStr ''a.jpg''), (''tag'', JStr ''sunset'')]]"
    by (simp add: timeKey_def timeOr_def field_def)
  from v b o n show ?thesis by blast
qed

text \<open>
  C2, amended. Whenever the run completes, as it does for every collection of valid
  files, and \<open>localeCompare\<close> orders the dates in the output and the times within each
  day as their code units do (it does for dates all of the form \<open>YYYY-MM-DD\<close> and times
  all of the form \<open>HH:MM\<close>), the array written is in descending lexicographic order of
  \<open>date\<close>, and the images of each day are in ascending lexicographic order of
  \<open>time || ''\<close>, so that an image without a time (key \<open>''\<close>) stands before every image
  with one.
\<close>

theorem aggregator_output_sorted:
  assumes "build lc files = Some out"
    and "agreesOn lc (date ` set (days out))"
    and "\<forall>day \<in> set (days out). agreesOn lc (timeKey ` set (images day))"
  shows "sorted_wrt (\<lambda>a b. date b \<le> date a) (days out)
       \<and> (\<forall>day \<in> set (days out). sorted_wrt (\<lambda>a b. timeKey a \<le> timeKey b) (images day))
       \<and> (\<forall>day \<in> set (days out). \<forall>img \<in> set (images day).
             \<not> truthy (field img ''time'') \<longrightarrow> timeKey img = [])
       \<and> (\<forall>day \<in> set (days out). \<forall>i j.
             i < length (images day) \<and> j < length (images day)
             \<and> timeKey (images day ! j) = [] \<and> timeKey (images day ! i) \<noteq> [] \<longrightarrow> j < i)
       \<and> (\<forall>lc' files'. (\<forall>f \<in> set files'. validFile f) \<longrightarrow> (\<exists>out'. build lc' files' = Some out'))"
proof -
  from assms(1) obtain st ds where
    pf: "processFiles files \<lparr>dayMap = [], warnings = []\<rparr> = Some st"
    and sa: "sortAllImages lc (objectValues (dayMap st)) = Some ds"
    and dy: "days out = sortBy (\<lambda>a b. lc (date b) (date a)) ds"
    and wn: "warned out = warnings st"
    by (rule build_parts)
  have "agreesOn lc (date ` set ds)"
    using assms(2) by (simp add: dy set_sortBy)
  then have c1: "sorted_wrt (\<lambda>a b. date b \<le> date a) (days out)"
    unfolding dy by (rule sortBy_by_key_desc)
  have c2: "sorted_wrt (\<lambda>a b. timeKey a \<le> timeKey b) (images day)"
    if "day \<in> set (days out)" for day
  proof -
    from that have "day \<in> set ds" by (simp add: dy set_sortBy)
    then obtain r where "sortImages lc r = Some day"
      using sortAllImages_member[OF sa] by blast
    then have im: "images day = sortBy (\<lambda>a b. lc (timeKey a) (timeKey b)) (images r)"
      using sortImages_Some by blast
    then have "set (images r) = set (images day)" by (simp add: set_sortBy)
    then have "agreesOn lc (timeKey ` set (images r))"
      using assms(3) that by simp
    then show ?thesis unfolding im by (rule sortBy_by_key)
  qed
  have c5: "\<exists>out'. build lc' files' = Some out'" if "\<forall>f \<in> set files'. validFile f"
    for lc' files'
    using build_valid_total[OF that] by blast
  show ?thesis
  proof (intro conjI ballI allI impI)
    show "sorted_wrt (\<lambda>a b. date b \<le> date a) (days out)" by (rule c1)
  next
    fix day assume "day \<in> set (days out)"
    then show "sorted_wrt (\<lambda>a b. timeKey a \<le> timeKey b) (images day)" by (rule c2)
  next
    fix day img assume "\<not> truthy (field img ''time'')"
    then show "timeKey img = []" by (rule timeKey_falsy)
  next
    fix day i j
    assume d: "day \<in> set (days out)"
      and h: "i < length (images day) \<and> j < length (images day)
              \<and> timeKey (images day ! j) = [] \<and> timeKey (images day ! i) \<noteq> []"
    show "j < i"
      using sorted_empty_key_first[OF c2[OF d]] h by blast
  next
    fix lc' :: "string \<Rightarrow> string \<Rightarrow> int" and files' :: "(string \<times> content) list"
    assume "\<forall>f \<in> set files'. validFile f"
    then show "\<exists>out'. build lc' files' = Some out'" by (rule c5)
  qed
qed

theorem aggregator_output_sorted_witness:
  "build codeUnitCompare sampleFiles = Some sampleBuilt
   \<and> agreesOn codeUnitCompare (date ` set (days sampleBuilt))
   \<and> sorted_wrt (\<lambda>a b. date b \<le> date a) (days sampleBuilt)
   \<and> list_all (\<lambda>day. sorted_wrt (\<lambda>a b. timeKey a \<le> timeKey b) (images day))
        (days sampleBuilt)"
  using aggregator_output_sorted[OF build_samples codeUnitCompare_agrees]
    build_samples codeUnitCompare_agrees
  by (simp add: list_all_iff)

subsection \<open>Skipped files\<close>

lemma objectValues_single: "objectValues [(k, v)] = [v]"
  by (simp add: objectValues_def)

lemma sortBy_single: "sortBy cmp [x] = [x]"
  by (simp add: sortBy_def)

lemma build_single_valid:
  assumes "validFile good"
  shows "\<exists>day. sortAllImages lc (objectValues (dayMapAfter [good] [])) = Some [day]
               \<and> date day = fileDate good \<and> location day = fileLocation good
               \<and> mset (images day) = mset (contributed good)"
proof -
  from validFile_effect[OF assms] obtain loc imgs where
    e: "fileEffect (snd good) = Extend (fileDate good) loc imgs None"
    and t: "list_all (\<lambda>i. timeOr i \<noteq> None) imgs" by blast
  let ?r = "\<lparr>date = fileDate good, location = loc, images = imgs\<rparr>"
  have dm: "dayMapAfter [good] [] = [(fileDate good, ?r)]"
    by (simp add: e ensureDay_def pushImages_def)
  have "\<exists>day. sortImages lc ?r = Some day"
    using t by (simp add: sortImages_def)
  then obtain day where s: "sortImages lc ?r = Some day" ..
  have "sortAllImages lc (objectValues (dayMapAfter [good] [])) = Some [day]"
    unfolding dm objectValues_single by (simp add: s)
  moreover have "date day = fileDate good" "location day = fileLocation good"
    "mset (images day) = mset (contributed good)"
    using sortImages_Some[OF s] e by (simp_all add: fileLocation_def contributed_def mset_sortBy)
  ultimately show ?thesis by blast
qed

text \<open>
  C9. A directory with one file that cannot be read or parsed and one valid file: the run
  completes, the output is exactly the valid file's day (the same as without the bad file,
  in either order of the two), and the one warning names the bad file. A parsed file of
  sidecar or per-day shape without a (truthy) \<open>date\<close> is skipped the same way, with the
  warning \<open>no date field\<close>.
\<close>

theorem bad_file_is_skipped:
  assumes "validFile good"
    and "(snd bad = Unreadable msg \<and> r = ReadOrParseFailure msg)
       \<or> ((\<exists>data. snd bad = Parsed data
                 \<and> (truthy (field data ''src'') \<or> (\<exists>xs. field data ''images'' = Some (JArr xs)))
                 \<and> \<not> truthy (field data ''date''))
           \<and> r = NoDateField)"
  shows "\<exists>o1 o2 o3 day.
           build lc [bad, good] = Some o1 \<and> build lc [good, bad] = Some o2
           \<and> build lc [good] = Some o3
           \<and> days o1 = [day] \<and> days o2 = [day] \<and> days o3 = [day]
           \<and> date day = fileDate good \<and> location day = fileLocation good
           \<and> mset (images day) = mset (contributed good)
           \<and> warned o1 = [(fst bad, r)] \<and> warned o2 = [(fst bad, r)] \<and> warned o3 = []"
proof -
  have eb: "fileEffect (snd bad) = Skip r"
    using assms(2)
    by (auto simp: fileEffect_def readProp_def sidecar_def perDay_def field_def
        split: json.splits option.splits)
  then have wb: "warningOf bad = [(fst bad, r)]"
    by (simp add: warningOf_def fileWarning_def)
  have wg: "warningOf good = []" and mg: "fileEffect (snd good) \<noteq> OutsideModel"
    using validFile_readouts[OF assms(1)] by simp_all
  have dm1: "dayMapAfter [bad, good] [] = dayMapAfter [good] []"
    and dm2: "dayMapAfter [good, bad] [] = dayMapAfter [good] []"
    by (simp_all add: eb)
  from build_single_valid[OF assms(1)] obtain day where
    s: "sortAllImages lc (objectValues (dayMapAfter [good] [])) = Some [day]"
    and d: "date day = fileDate good" "location day = fileLocation good"
      "mset (images day) = mset (contributed good)" by blast
  define mk where "mk w = \<lparr>days = [day], warned = w, dayCount = length [day],
     imageCount = foldl (\<lambda>n d. n + length (images d)) 0 [day]\<rparr>" for w :: "(string \<times> reason) list"
  have "build lc [bad, good] = Some (mk [(fst bad, r)])"
    unfolding build_iff dm1 s using eb mg by (simp add: wb wg sortBy_single mk_def)
  moreover have "build lc [good, bad] = Some (mk [(fst bad, r)])"
    unfolding build_iff dm2 s using eb mg by (simp add: wb wg sortBy_single mk_def)
  moreover have "build lc [good] = Some (mk [])"
    unfolding build_iff s using mg by (simp add: wg sortBy_single mk_def)
  moreover have "days (mk w) = [day]" "warned (mk w) = w" for w
    by (simp_all add: mk_def)
  ultimately show ?thesis using d by blast
qed

theorem bad_file_is_skipped_witness:
  "validFile sidecarA
   \<and> snd brokenD = Unreadable ''Unexpected end of JSON input''
   \<and> (\<exists>o1 day. build codeUnitCompare [brokenD, sidecarA] = Some o1 \<and> days o1 = [day]
         \<and> date day = ''2025-06-14''
         \<and> warned o1 = [(''broken.json'', ReadOrParseFailure ''Unexpected end of JSON input'')])
   \<and> (\<exists>o1 day. build codeUnitCompare [noDateG, sidecarA] = Some o1 \<and> days o1 = [day]
         \<and> warned o1 = [(''undated.json'', NoDateField)])"
proof -
  have v: "validFile sidecarA"
    by (simp add: validFile_def validImage_def sidecarA_def protoKeys_def)
  have b: "snd brokenD = Unreadable ''Unexpected end of JSON input''"
    by (simp add: brokenD_def)
  have g: "\<exists>data. snd noDateG = Parsed data
                 \<and> (truthy (field data ''src'') \<or> (\<exists>xs. field data ''images'' = Some (JArr xs)))
                 \<and> \<not> truthy (field data ''date'')"
    by (simp add: noDateG_def field_def)
  have fd: "fileDate sidecarA = ''2025-06-14''" "fst brokenD = ''broken.json''"
    "fst noDateG = ''undated.json''"
    by (simp_all add: fileDate_def sidecarA_def field_def brokenD_def noDateG_def)
  from bad_file_is_skipped[of sidecarA brokenD "''Unexpected end of JSON input''"
      "ReadOrParseFailure ''Unexpected end of JSON input''" codeUnitCompare] v b
  have 1: "\<exists>o1 day. build codeUnitCompare [brokenD, sidecarA] = Some o1 \<and> days o1 = [day]
         \<and> date day = ''2025-06-14''
         \<and> warned o1 = [(''broken.json'', ReadOrParseFailure ''Unexpected end of JSON input'')]"
    unfolding fd by blast
  from bad_file_is_skipped[of sidecarA noDateG "''''" NoDateField codeUnitCompare] v g
  have 2: "\<exists>o1 day. build codeUnitCompare [noDateG, sidecarA] = Some o1 \<and> days o1 = [day]
         \<and> warned o1 = [(''undated.json'', NoDateField)]"
    unfolding fd by blast
  from v b 1 2 show ?thesis by blast
qed

lemma dayMapAfter_skip:
  assumes "fileEffect (snd f) = Skip r"
  shows "dayMapAfter (pre @ f # post) dm = dayMapAfter (pre @ post) dm"
  by (simp add: dayMapAfter_append assms)

text \<open>
  C10, as stated, fails in its last part: for a file with both \<open>src\<close> and an \<open>images\<close>
  array the array is not discarded. The file is taken as a sidecar, and the one record it
  contributes, a copy of the whole object, still has the array as its \<open>images\<close> property
  in the output.
\<close>

theorem mixed_file_keeps_array_counterexample:
  "build codeUnitCompare [mixedE] = Some mixedBuilt
   \<and> field (hd (images (hd (days mixedBuilt)))) ''images''
       = Some (JArr [JObj [(''src'', JStr ''x.jpg''), (''time'', JStr ''07:00'')]])"
proof -
  have e: "fileEffect (snd mixedE) = Extend ''2025-06-14'' (JStr [])
     [JObj [(''date'', JStr ''2025-06-14''), (''src'', JStr ''a.jpg''),
            (''time'', JStr ''05:47''),
            (''images'', JArr [JObj [(''src'', JStr ''x.jpg''), (''time'', JStr ''07:00'')]]),
            (''tag'', JStr ''sunrise'')]] None"
    by (simp add: mixedE_def file_evals)
  have dm: "dayMapAfter [mixedE] [] = [(''2025-06-14'', \<lparr>date = ''2025-06-14'', location = JStr [],
      images = [JObj [(''date'', JStr ''2025-06-14''), (''src'', JStr ''a.jpg''),
            (''time'', JStr ''05:47''),
            (''images'', JArr [JObj [(''src'', JStr ''x.jpg''), (''time'', JStr ''07:00'')]]),
            (''tag'', JStr ''sunrise'')]]\<rparr>)]"
    by (simp add: e ensureDay_def pushImages_def)
  have w: "warningOf mixedE = []"
    by (simp add: warningOf_def fileWarning_def e)
  have "build codeUnitCompare [mixedE] = Some mixedBuilt"
    unfolding build_iff dm objectValues_single
    by (simp add: e w sortImages_def sortBy_def mixedBuilt_def)
  then show ?thesis by (simp add: mixedBuilt_def field_def)
qed

text \<open>
  C10, amended. A parsed value other than \<open>null\<close> with no truthy \<open>src\<close> and no \<open>images\<close>
  array is skipped with the warning \<open>unrecognized format\<close>, whatever its \<open>date\<close>: the
  warning is in the output's list, and the days written are those written without the
  file. A valid object with a truthy \<open>src\<close> and an \<open>images\<close> array is taken as a sidecar:
  it contributes one record, its own normalized copy, none of the array's elements becomes
  an image of the day, and the array stays on that record as the property \<open>images\<close>.
\<close>

theorem unrecognized_and_mixed_shapes:
  "(data \<noteq> JNull \<and> \<not> truthy (field data ''src'')
      \<and> (\<forall>xs. field data ''images'' \<noteq> Some (JArr xs))
    \<longrightarrow> fileEffect (Parsed data) = Skip UnrecognizedFormat
        \<and> fileKey (name, Parsed data) = None \<and> contributed (name, Parsed data) = []
        \<and> (build lc (pre @ (name, Parsed data) # post) = Some out
             \<longrightarrow> (name, UnrecognizedFormat) \<in> set (warned out)
                 \<and> (\<exists>out'. build lc (pre @ post) = Some out' \<and> days out' = days out)))
   \<and> (validFile (name, Parsed (JObj fs)) \<and> truthy (map_of fs ''src'')
        \<and> map_of fs ''images'' = Some (JArr xs)
    \<longrightarrow> (\<exists>img. fileEffect (Parsed (JObj fs))
                  = Extend (fileDate (name, Parsed (JObj fs))) (locationOr (JObj fs)) [img] None
               \<and> normalizeImage (JObj fs) = Inr img
               \<and> contributed (name, Parsed (JObj fs)) = [img]
               \<and> field img ''images'' = Some (JArr xs)))"
proof (intro conjI impI)
  assume h: "data \<noteq> JNull \<and> \<not> truthy (field data ''src'')
      \<and> (\<forall>xs. field data ''images'' \<noteq> Some (JArr xs))"
  have e: "fileEffect (Parsed data) = Skip UnrecognizedFormat"
    using h by (cases data) (auto simp: fileEffect_def readProp_def split: option.splits json.splits)
  then show "fileEffect (Parsed data) = Skip UnrecognizedFormat" .
  show "fileKey (name, Parsed data) = None" "contributed (name, Parsed data) = []"
    by (simp_all add: fileKey_def contributed_def e)
  have w: "warningOf (name, Parsed data) = [(name, UnrecognizedFormat)]"
    by (simp add: warningOf_def fileWarning_def e)
  assume b: "build lc (pre @ (name, Parsed data) # post) = Some out"
  then show "(name, UnrecognizedFormat) \<in> set (warned out)"
    by (auto simp: build_iff w)
  have dm: "dayMapAfter (pre @ (name, Parsed data) # post) [] = dayMapAfter (pre @ post) []"
    by (rule dayMapAfter_skip[of _ UnrecognizedFormat]) (simp add: e)
  from b obtain ds where
    m: "\<forall>f \<in> set (pre @ (name, Parsed data) # post). fileEffect (snd f) \<noteq> OutsideModel"
    and s: "sortAllImages lc (objectValues (dayMapAfter (pre @ post) [])) = Some ds"
    and d: "days out = sortBy (\<lambda>a b. lc (date b) (date a)) ds"
    unfolding build_iff dm by auto
  from m have m': "\<forall>f \<in> set (pre @ post). fileEffect (snd f) \<noteq> OutsideModel" by auto
  show "\<exists>out'. build lc (pre @ post) = Some out' \<and> days out' = days out"
    unfolding build_iff using m' s d by simp
next
  assume h: "validFile (name, Parsed (JObj fs)) \<and> truthy (map_of fs ''src'')
        \<and> map_of fs ''images'' = Some (JArr xs)"
  then obtain dv where dv: "map_of fs ''date'' = Some dv"
    by (cases "map_of fs ''date''") (auto simp: validFile_def)
  with h obtain d where d: "map_of fs ''date'' = Some (JStr d)" "d \<noteq> []" "d \<notin> set protoKeys"
    by (cases dv) (auto simp: validFile_def)
  have fd: "fileDate (name, Parsed (JObj fs)) = d"
    by (simp add: fileDate_def field_def d)
  have vi: "validImage (JObj fs)" using h d by (simp add: validFile_def)
  from normalizeImage_object[OF vi] obtain t where
    n: "normalizeImage (JObj fs) = Inr (JObj (setProp ''tag'' t fs))" by blast
  have e: "fileEffect (Parsed (JObj fs)) = Extend d (locationOr (JObj fs)) [JObj (setProp ''tag'' t fs)] None"
    using h d n by (simp add: fileEffect_def readProp_def field_def sidecar_def)
  have i: "field (JObj (setProp ''tag'' t fs)) ''images'' = Some (JArr xs)"
    using h by (simp add: field_def map_of_setProp_other)
  show "\<exists>img. fileEffect (Parsed (JObj fs))
                  = Extend (fileDate (name, Parsed (JObj fs))) (locationOr (JObj fs)) [img] None
               \<and> normalizeImage (JObj fs) = Inr img
               \<and> contributed (name, Parsed (JObj fs)) = [img]
               \<and> field img ''images'' = Some (JArr xs)"
    unfolding fd using e n i by (simp add: contributed_def)
qed

theorem unrecognized_and_mixed_shapes_witness:
  "snd unknownF \<noteq> Parsed JNull
   \<and> build codeUnitCompare [sidecarA, unknownF] \<noteq> None
   \<and> fileEffect (snd unknownF) = Skip UnrecognizedFormat
   \<and> (\<exists>out out'. build codeUnitCompare [sidecarA, unknownF] = Some out
         \<and> (''notes.json'', UnrecognizedFormat) \<in> set (warned out)
         \<and> build codeUnitCompare [sidecarA] = Some out' \<and> days out' = days out)
   \<and> validFile mixedE
   \<and> (\<exists>img. contributed mixedE = [img]
         \<and> field img ''images'' = Some (JArr [JObj [(''src'', JStr ''x.jpg''), (''time'', JStr ''07:00'')]]))"
proof -
  let ?u = "JObj [(''date'', JStr ''2025-06-16''), (''caption'', JStr ''no media'')]"
  let ?m = "[(''date'', JStr ''2025-06-14''), (''src'', JStr ''a.jpg''),
                   (''time'', JStr ''05:47''),
                   (''images'', JArr [JObj [(''src'', JStr ''x.jpg''), (''time'', JStr ''07:00'')]])]"
  have u: "unknownF = (''notes.json'', Parsed ?u)" by (simp add: unknownF_def)
  have hu: "?u \<noteq> JNull \<and> \<not> truthy (field ?u ''src'')
      \<and> (\<forall>xs. field ?u ''images'' \<noteq> Some (JArr xs))"
    by (simp add: field_def)
  have eu: "fileEffect (snd unknownF) = Skip UnrecognizedFormat"
    using unrecognized_and_mixed_shapes[where data = ?u and name = "''notes.json''"]
      hu by (simp add: u)
  have va: "validFile sidecarA"
    by (simp add: validFile_def validImage_def sidecarA_def protoKeys_def)
  have "\<exists>out. build codeUnitCompare [sidecarA, unknownF] = Some out"
    by (rule build_total)
       (use eu validFile_readouts[OF va] in \<open>auto simp: contributed_def\<close>)
  then obtain out where b: "build codeUnitCompare [sidecarA, unknownF] = Some out" ..
  then have b': "build codeUnitCompare ([sidecarA] @ (''notes.json'', Parsed ?u) # []) = Some out"
    by (simp add: u)
  from unrecognized_and_mixed_shapes[where data = ?u and name = "''notes.json''"
      and lc = codeUnitCompare and pre = "[sidecarA]" and post = "[]" and out = out] hu b'
  have r: "(''notes.json'', UnrecognizedFormat) \<in> set (warned out)"
    "\<exists>out'. build codeUnitCompare [sidecarA] = Some out' \<and> days out' = days out"
    by simp_all
  have m: "mixedE = (''mixed.json'', Parsed (JObj ?m))" by (simp add: mixedE_def)
  have vm: "validFile mixedE"
    by (simp add: validFile_def validImage_def mixedE_def protoKeys_def)
  have hm: "validFile (''mixed.json'', Parsed (JObj ?m)) \<and> truthy (map_of ?m ''src'')
        \<and> map_of ?m ''images'' = Some (JArr [JObj [(''src'', JStr ''x.jpg''), (''time'', JStr ''07:00'')]])"
    using vm by (simp add: m)
  from unrecognized_and_mixed_shapes[where name = "''mixed.json''" and fs = ?m
      and xs = "[JObj [(''src'', JStr ''x.jpg''), (''time'', JStr ''07:00'')]]"] hm
  have k: "\<exists>img. contributed mixedE = [img]
         \<and> field img ''images'' = Some (JArr [JObj [(''src'', JStr ''x.jpg''), (''time'', JStr ''07:00'')]])"
    unfolding m by blast
  from b r eu vm k show ?thesis by (auto simp: u)
qed

section \<open>Properties of the site script\<close>

subsection \<open>Evaluating doubles\<close>

lemma floor_rat_div: "\<lfloor>(numeral a :: rat) / numeral b\<rfloor> = numeral a div numeral b"
  using floor_divide_of_int_eq[of "numeral a" "numeral b", where ?'a = rat] by simp

lemma ceiling_rat_div: "\<lceil>(numeral a :: rat) / numeral b\<rceil> = - (- numeral a div numeral b)"
  using floor_divide_of_int_eq[of "- numeral a" "numeral b", where ?'a = rat]
  by (simp add: ceiling_def)

lemma bitlen_0: "bitlen 0 = 0"
  by (simp add: bitlen.simps)

lemma bitlen_numeral: "bitlen (numeral k) = Suc (bitlen (numeral k div 2))"
  by (subst bitlen.simps) simp

lemma bitlen_1: "bitlen (Suc 0) = 1" "bitlen 1 = 1"
  by (simp_all add: bitlen.simps)

lemmas dbl_simps = log2floor_def roundHalfEven_def Let_def pow2_def floor_rat_div
  ceiling_rat_div bitlen_0 bitlen_numeral bitlen_1

lemma doubleLimit_large: "r \<le> 10 ^ 30 \<Longrightarrow> r < doubleLimit"
  by (simp add: doubleLimit_def)

lemma toDouble_pos:
  assumes "0 < r" "log2floor r = e" "- 1022 \<le> e" "pow2 (e - 52) = u"
    and "roundHalfEven (r / u) = n" "of_int n * u \<le> 10 ^ 30"
  shows "toDouble r = Fin (of_int n * u)"
proof -
  have a: "\<bar>r\<bar> = r" using assms(1) by simp
  have m: "max (log2floor r) (- 1022) = e" using assms by simp
  have l: "\<not> doubleLimit \<le> of_int n * u" using doubleLimit_large[OF assms(6)] by simp
  show ?thesis unfolding toDouble_def Let_def a m using assms(1,4,5) l by simp
qed

lemma toDouble_neg:
  assumes "r < 0" "log2floor (- r) = e" "- 1022 \<le> e" "pow2 (e - 52) = u"
    and "roundHalfEven (- r / u) = n" "of_int n * u \<le> 10 ^ 30"
  shows "toDouble r = Fin (- (of_int n * u))"
proof -
  have a: "\<bar>r\<bar> = - r" using assms(1) by simp
  have m: "max (log2floor (- r)) (- 1022) = e" using assms by simp
  have l: "\<not> doubleLimit \<le> of_int n * u" using doubleLimit_large[OF assms(6)] by simp
  show ?thesis unfolding toDouble_def Let_def a m using assms(1,4,5) l by simp
qed

lemma tenths_eval:
  assumes "toDouble x = Fin d" "toDouble (d * 10) = Fin p" "jsRound p = k"
  shows "tenths x = Fin (of_int k)"
  using assms by (simp add: tenths_def timesTen_def)

text \<open>The sample coordinates: the double, its product with ten, the rounded product.\<close>

lemma tenths_torreyLat: "tenths torreyLat = Fin 329"
proof -
  have 1: "toDouble torreyLat = Fin (4632852936676029 / 140737488355328)"
    unfolding torreyLat_def
    using toDouble_pos[where r = "329184 / 10000" and e = 5 and n = 4632852936676029
        and u = "1 / 2 ^ 47"]
    by (simp add: dbl_simps)
  have 2: "toDouble (4632852936676029 / 140737488355328 * 10)
             = Fin (1447766542711259 / 4398046511104)"
    using toDouble_pos[where r = "4632852936676029 / 140737488355328 * 10" and e = 8
        and n = 5791066170845036 and u = "1 / 2 ^ 44"]
    by (simp add: dbl_simps)
  have 3: "jsRound (1447766542711259 / 4398046511104) = 329"
    by (simp add: jsRound_def floor_rat_div)
  from tenths_eval[OF 1 2 3] show ?thesis by simp
qed

lemma tenths_nearbyLat: "tenths nearbyLat = Fin 329"
proof -
  have 1: "toDouble nearbyLat = Fin (579486608303063 / 17592186044416)"
    unfolding nearbyLat_def
    using toDouble_pos[where r = "3294 / 100" and e = 5 and n = 4635892866424504
        and u = "1 / 2 ^ 47"]
    by (simp add: dbl_simps)
  have 2: "toDouble (579486608303063 / 17592186044416 * 10)
             = Fin (2897433041515315 / 8796093022208)"
    using toDouble_pos[where r = "579486608303063 / 17592186044416 * 10" and e = 8
        and n = 5794866083030630 and u = "1 / 2 ^ 44"]
    by (simp add: dbl_simps)
  have 3: "jsRound (2897433041515315 / 8796093022208) = 329"
    by (simp add: jsRound_def floor_rat_div)
  from tenths_eval[OF 1 2 3] show ?thesis by simp
qed

lemma tenths_torreyLng: "tenths torreyLng = Fin (- 1173)"
proof -
  have 1: "toDouble torreyLng = Fin (- (32230424149649 / 274877906944))"
    unfolding torreyLng_def
    using toDouble_neg[where r = "- 1172536 / 10000" and e = 6 and n = 8250988582310144
        and u = "1 / 2 ^ 46"]
    by (simp add: dbl_simps)
  have 2: "toDouble (- (32230424149649 / 274877906944) * 10)
             = Fin (- (161152120748245 / 137438953472))"
    using toDouble_neg[where r = "- (32230424149649 / 274877906944) * 10" and e = 10
        and n = 5156867863943840 and u = "1 / 2 ^ 42"]
    by (simp add: dbl_simps)
  have 3: "jsRound (- (161152120748245 / 137438953472)) = - 1173"
    by (simp add: jsRound_def floor_eq_iff)
  from tenths_eval[OF 1 2 3] show ?thesis by simp
qed

lemma tenths_nearbyLng: "tenths nearbyLng = Fin (- 1173)"
proof -
  have 1: "toDouble nearbyLng = Fin (- (8251438942272881 / 70368744177664))"
    unfolding nearbyLng_def
    using toDouble_neg[where r = "- 11726 / 100" and e = 6 and n = 8251438942272881
        and u = "1 / 2 ^ 46"]
    by (simp add: dbl_simps)
  have 2: "toDouble (- (8251438942272881 / 70368744177664) * 10)
             = Fin (- (5157149338920551 / 4398046511104))"
    using toDouble_neg[where r = "- (8251438942272881 / 70368744177664) * 10" and e = 10
        and n = 5157149338920551 and u = "1 / 2 ^ 42"]
    by (simp add: dbl_simps)
  have 3: "jsRound (- (5157149338920551 / 4398046511104)) = - 1173"
    by (simp add: jsRound_def floor_eq_iff)
  from tenths_eval[OF 1 2 3] show ?thesis by simp
qed

lemma tenths_DEFAULT_LAT: "tenths DEFAULT_LAT = Fin 327"
proof -
  have 1: "toDouble DEFAULT_LAT = Fin (1151081361946601 / 35184372088832)"
    unfolding DEFAULT_LAT_def
    using toDouble_pos[where r = "327157 / 10000" and e = 5 and n = 4604325447786404
        and u = "1 / 2 ^ 47"]
    by (simp add: dbl_simps)
  have 2: "toDouble (1151081361946601 / 35184372088832 * 10)
             = Fin (5755406809733005 / 17592186044416)"
    using toDouble_pos[where r = "1151081361946601 / 35184372088832 * 10" and e = 8
        and n = 5755406809733005 and u = "1 / 2 ^ 44"]
    by (simp add: dbl_simps)
  have 3: "jsRound (5755406809733005 / 17592186044416) = 327"
    by (simp add: jsRound_def floor_rat_div)
  from tenths_eval[OF 1 2 3] show ?thesis by simp
qed

lemma tenths_DEFAULT_LNG: "tenths DEFAULT_LNG = Fin (- 1172)"
proof -
  have 1: "toDouble DEFAULT_LNG = Fin (- (4122239736736855 / 35184372088832))"
    unfolding DEFAULT_LNG_def
    using toDouble_neg[where r = "- 1171611 / 10000" and e = 6 and n = 8244479473473710
        and u = "1 / 2 ^ 46"]
    by (simp add: dbl_simps)
  have 2: "toDouble (- (4122239736736855 / 35184372088832) * 10)
             = Fin (- (5152799670921069 / 4398046511104))"
    using toDouble_neg[where r = "- (4122239736736855 / 35184372088832) * 10" and e = 10
        and n = 5152799670921069 and u = "1 / 2 ^ 42"]
    by (simp add: dbl_simps)
  have 3: "jsRound (- (5152799670921069 / 4398046511104)) = - 1172"
    by (simp add: jsRound_def floor_eq_iff)
  from tenths_eval[OF 1 2 3] show ?thesis by simp
qed

text \<open>
  The product is the double product: for \<open>-119.85000000000001\<close> it is \<open>-1198.5\<close>, which
  rounds to \<open>-1198\<close>; the exact product would round to \<open>-1199\<close>.
\<close>

lemma tenths_edgeLng: "tenths edgeLng = Fin (- 1198) \<and> jsRound (edgeLng * 10) = - 1199"
proof -
  have 1: "toDouble edgeLng = Fin (- (8433693989693031 / 70368744177664))"
    unfolding edgeLng_def
    using toDouble_neg[where r = "- 11985000000000001 / 100000000000000" and e = 6
        and n = 8433693989693031 and u = "1 / 2 ^ 46"]
    by (simp add: dbl_simps)
  have 2: "toDouble (- (8433693989693031 / 70368744177664) * 10) = Fin (- (2397 / 2))"
    using toDouble_neg[where r = "- (8433693989693031 / 70368744177664) * 10" and e = 10
        and n = 5271058743558144 and u = "1 / 2 ^ 42"]
    by (simp add: dbl_simps)
  have 3: "jsRound (- (2397 / 2)) = - 1198"
    by (simp add: jsRound_def floor_eq_iff)
  have 4: "jsRound (edgeLng * 10) = - 1199"
    by (simp add: jsRound_def edgeLng_def floor_eq_iff)
  from tenths_eval[OF 1 2 3] 4 show ?thesis by simp
qed

lemma showNat_small:
  "showNat 327 = ''327''" "showNat 329 = ''329''" "showNat 1172 = ''1172''"
  "showNat 1173 = ''1173''" "showNat 1198 = ''1198''"
  by (simp_all add: showNat.simps digitChar_def)

lemma intString_small: "\<bar>i\<bar> \<le> 100000 \<Longrightarrow>
    intString i = (if i < 0 then CHR ''-'' # showNat (nat (- i)) else showNat (nat i))"
proof -
  assume a: "\<bar>i\<bar> \<le> 100000"
  have "nat i \<le> 2 ^ 53" "nat (- i) \<le> 2 ^ 53" using a by (auto simp: nat_le_iff)
  then show ?thesis by (simp only: intString_def natString_def if_True)
qed

lemma cacheKey_torrey: "cacheKey ''2025-06-14'' torreyLat torreyLng = ''2025-06-14-329--1173''"
  by (simp add: cacheKey_def tenths_torreyLat tenths_torreyLng numString_def intString_small
      showNat_small)

lemma cacheKey_nearby: "cacheKey ''2025-06-14'' nearbyLat nearbyLng = ''2025-06-14-329--1173''"
  by (simp add: cacheKey_def tenths_nearbyLat tenths_nearbyLng numString_def intString_small
      showNat_small)

lemma cacheKey_default:
  "cacheKey ''2025-06-14'' DEFAULT_LAT DEFAULT_LNG = ''2025-06-14-327--1172''"
  by (simp add: cacheKey_def tenths_DEFAULT_LAT tenths_DEFAULT_LNG numString_def intString_small
      showNat_small)

lemma cacheKey_edge: "cacheKey ''2025-06-14'' torreyLat edgeLng = ''2025-06-14-329--1198''"
  using tenths_edgeLng
  by (simp add: cacheKey_def tenths_torreyLat numString_def intString_small showNat_small)

subsection \<open>The weather cache\<close>

lemma showNat_nonempty: "showNat n \<noteq> []"
  by (subst showNat.simps) simp

lemma formatWeather_nonempty: "formatWeather w \<noteq> []"
  by (simp add: formatWeather_def Let_def degF_def)

lemma char_of_C: "char_of (67 :: nat) = CHR ''C''"
  by (simp add: char_of_eq_iff)

lemma formatWeather_clearPoint:
  "formatWeather clearPoint
     = ''61'' @ [CHR 0xC2, CHR 0xB0] @ ''F '' @ [CHR 0xC2, CHR 0xB7] @ '' Clear sky ''
       @ [CHR 0xC2, CHR 0xB7] @ '' Wind SW 6mph''"
  by (simp add: formatWeather_def clearPoint_def jsRound_def floor_rat_div intString_small
      showNat.simps digitChar_def degF_def midDot_def capitalize_def toUpperAscii_def
      degreesToCardinal_def dirs_def Let_def char_of_C)

lemma cached_nonempty: "cached st k = Some s \<Longrightarrow> s \<noteq> []"
  by (auto simp: cached_def split: option.splits if_splits)

lemma cacheKey_tenths:
  "tenths la2 = tenths la1 \<Longrightarrow> tenths lo2 = tenths lo1 \<Longrightarrow> cacheKey d la2 lo2 = cacheKey d la1 lo1"
  by (simp add: cacheKey_def)

text \<open>The ways a request can return.\<close>

lemma fetchWeather_Returns:
  assumes "fetchWeather e st d t lat lng = Returns (r, st1)"
  shows "WEATHER_API_KEY e = [] \<and> r = None \<and> st1 = st
       \<or> WEATHER_API_KEY e \<noteq> []
          \<and> (\<exists>la lo. asNumber lat = Some la \<and> asNumber lng = Some lo
                \<and> ((\<exists>hit. cached st (cacheKey d la lo) = Some hit \<and> r = Some hit \<and> st1 = st)
                    \<or> cached st (cacheKey d la lo) = None
                       \<and> (\<exists>ts. templateStr t = Some ts
                             \<and> (network e (fetches st) d ts la lo = Failed \<and> r = None
                                   \<and> st1 = st\<lparr>fetches := fetches st + 1\<rparr>
                                 \<or> (\<exists>w. network e (fetches st) d ts la lo = Point w
                                       \<and> r = Some (formatWeather w)
                                       \<and> st1 = st\<lparr>weatherCache :=
                                                     (cacheKey d la lo, formatWeather w)
                                                     # weatherCache st,
                                                   fetches := fetches st + 1\<rparr>)))))"
proof (cases "WEATHER_API_KEY e = []")
  case True
  then show ?thesis using assms by (auto simp: fetchWeather_def)
next
  case False
  from assms False obtain la lo where n: "asNumber lat = Some la" "asNumber lng = Some lo"
    by (auto simp: fetchWeather_def split: option.splits)
  show ?thesis
  proof (cases "cached st (cacheKey d la lo)")
    case (Some hit)
    then show ?thesis using assms False n by (auto simp: fetchWeather_def)
  next
    case None
    from assms False n None obtain ts where ts: "templateStr t = Some ts"
      by (auto simp: fetchWeather_def split: option.splits)
    show ?thesis
      using assms False n None ts
      by (cases "network e (fetches st) d ts la lo") (auto simp: fetchWeather_def)
  qed
qed

lemma fetchWeather_Some:
  assumes "fetchWeather e st d t lat lng = Returns (Some s, st1)"
  shows "\<exists>la lo. asNumber lat = Some la \<and> asNumber lng = Some lo
           \<and> cached st1 (cacheKey d la lo) = Some s \<and> WEATHER_API_KEY e \<noteq> []
           \<and> fetches st1 \<le> fetches st + 1"
  using fetchWeather_Returns[OF assms]
  by (auto simp: cached_def formatWeather_nonempty)

text \<open>A request removes nothing from the cache, and neither does anything later.\<close>

lemma fetchWeather_keeps:
  assumes "fetchWeather e st d t lat lng = Returns (r, st1)" "cached st k = Some s"
  shows "cached st1 k = Some s"
  using fetchWeather_Returns[OF assms(1)] assms(2)
  by (auto simp: cached_def)

lemma later_keeps:
  assumes "later e st st2" "cached st k = Some s"
  shows "cached st2 k = Some s"
  using assms
proof (induction rule: later.induct)
  case (later_refl st)
  then show ?case by simp
next
  case (later_fetch st st1 d t lat lng r st2)
  then show ?case using fetchWeather_keeps by blast
next
  case (later_random st st1)
  then show ?case by (simp add: cached_def)
qed

lemma later_trans: "later e b c \<Longrightarrow> later e a b \<Longrightarrow> later e a c"
proof (induction rule: later.induct)
  case (later_refl st)
  then show ?case by simp
next
  case (later_fetch st st1 d t lat lng r st2)
  then show ?case using later.later_fetch by blast
next
  case (later_random st st1)
  then show ?case using later.later_random by blast
qed

text \<open>What \<open>processDays\<close> does to the session is of this kind.\<close>

lemma resolveWeather_later:
  assumes "resolveWeather e st d lat lng img = Returns (w, st1)"
  shows "later e st st1"
proof (cases "\<not> truthy (field img ''weather'') \<and> WEATHER_API_KEY e \<noteq> []")
  case False
  then have "st1 = st" using assms by (auto simp: resolveWeather_def)
  then show ?thesis by (simp add: later_refl)
next
  case True
  then obtain r where "fetchWeather e st d (field img ''time'') lat lng = Returns (r, st1)"
    using assms
    by (auto simp: resolveWeather_def split: outcome.splits prod.splits option.splits)
  then show ?thesis using later_fetch[OF later_refl] by blast
qed

lemma resolveId_later:
  assumes "resolveId e st d img = Some (v, st1)"
  shows "later e st st1"
proof (cases "truthy (field img ''id'')")
  case True
  then have "st1 = st" using assms by (simp add: resolveId_def)
  then show ?thesis by (simp add: later_refl)
next
  case False
  then have "st1 = st\<lparr>randoms := randoms st + 1\<rparr>"
    using assms by (auto simp: resolveId_def split: option.splits)
  then show ?thesis using later_random[OF later_refl, of e st] by simp
qed

lemma processImage_later:
  assumes "processImage e st d lat lng loc img = Returns (r, st2)"
  shows "later e st st2"
proof -
  from assms obtain w st1 v where
    "resolveWeather e st d lat lng img = Returns (w, st1)"
    "resolveId e st1 d img = Some (v, st2)"
    by (auto simp: processImage_def split: sum.splits outcome.splits prod.splits option.splits)
  then show ?thesis using resolveWeather_later resolveId_later later_trans by blast
qed

lemma processImages_later:
  "processImages e st d lat lng loc imgs = Returns (rs, st2) \<Longrightarrow> later e st st2"
proof (induction imgs arbitrary: st rs)
  case Nil
  then show ?case by (simp add: later_refl)
next
  case (Cons img imgs)
  from Cons.prems obtain r st1 rs' where
    1: "processImage e st d lat lng loc img = Returns (r, st1)"
    and 2: "processImages e st1 d lat lng loc imgs = Returns (rs', st2)"
    by (auto split: outcome.splits prod.splits)
  from later_trans[OF Cons.IH[OF 2] processImage_later[OF 1]] show ?case .
qed

lemma processDay_later:
  assumes "processDay e st day = Returns (p, st1)"
  shows "later e st st1"
proof -
  from assms obtain d lat lng loc imgs rs where
    "processImages e st d lat lng loc imgs = Returns (rs, st1)"
    by (auto simp: processDay_def
        split: sum.splits option.splits json.splits outcome.splits prod.splits)
  then show ?thesis by (rule processImages_later)
qed

lemma processDays_later:
  "processDays e st ds = Returns (ps, st2) \<Longrightarrow> later e st st2"
proof (induction ds arbitrary: st ps)
  case Nil
  then show ?case by (simp add: later_refl)
next
  case (Cons day ds)
  from Cons.prems obtain p st1 ps' where
    1: "processDay e st day = Returns (p, st1)"
    and 2: "processDays e st1 ds = Returns (ps', st2)"
    by (auto split: outcome.splits prod.splits)
  from later_trans[OF Cons.IH[OF 2] processDay_later[OF 1]] show ?case .
qed

text \<open>
  C7, as stated, fails: a request that fails stores nothing, so a second request with the
  same date and coordinates goes to the network again. With the provider down, two
  requests for one key issue two network calls.
\<close>

theorem failed_weather_not_cached_counterexample:
  "fetchWeather offlineEnv freshSession ''2025-06-14'' (Some (JStr ''05:47''))
       (JNum DEFAULT_LAT) (JNum DEFAULT_LNG)
     = Returns (None, \<lparr>weatherCache = [], fetches = 1, randoms = 0\<rparr>)
   \<and> fetchWeather offlineEnv \<lparr>weatherCache = [], fetches = 1, randoms = 0\<rparr> ''2025-06-14''
       (Some (JStr ''05:47'')) (JNum DEFAULT_LAT) (JNum DEFAULT_LNG)
     = Returns (None, \<lparr>weatherCache = [], fetches = 2, randoms = 0\<rparr>)"
  by (simp add: fetchWeather_def offlineEnv_def freshSession_def asNumber_def cached_def)

text \<open>
  C7, amended. Once a request has returned a string, any later request of the page
  session (after any further requests and \<open>Math.random\<close> calls) with the same date and
  with latitude and longitude whose products with ten round to the same integers returns
  the identical string from the cache, issues no network call and leaves the session as
  it is; the first request itself issued at most one call. Every request that fails
  (returns \<open>null\<close>) leaves the cache as it was and issued at most one call, and a
  request whose key is not in the cache issues exactly one call when the time can be
  interpolated. Without a configured key no call is issued.
\<close>

theorem weather_cache_idempotent:
  assumes "fetchWeather e st d t1 (JNum la1) (JNum lo1) = Returns (Some s, st1)"
    and "later e st1 st2"
    and "tenths la2 = tenths la1" and "tenths lo2 = tenths lo1"
  shows "fetchWeather e st2 d t2 (JNum la2) (JNum lo2) = Returns (Some s, st2)
       \<and> fetches st1 \<le> fetches st + 1
       \<and> (\<forall>e' st' d' t' lat' lng' st''.
             fetchWeather e' st' d' t' lat' lng' = Returns (None, st'')
             \<longrightarrow> weatherCache st'' = weatherCache st' \<and> fetches st'' \<le> fetches st' + 1)
       \<and> (\<forall>e' st' d' t' la' lo' r st''.
             fetchWeather e' st' d' t' (JNum la') (JNum lo') = Returns (r, st'')
             \<and> WEATHER_API_KEY e' \<noteq> [] \<and> cached st' (cacheKey d' la' lo') = None
             \<longrightarrow> fetches st'' = fetches st' + 1)
       \<and> (\<forall>e' st' d' t' lat' lng'.
             WEATHER_API_KEY e' = [] \<longrightarrow> fetchWeather e' st' d' t' lat' lng' = Returns (None, st'))"
proof -
  from fetchWeather_Some[OF assms(1)] have
    c: "cached st1 (cacheKey d la1 lo1) = Some s" and k: "WEATHER_API_KEY e \<noteq> []"
    and f: "fetches st1 \<le> fetches st + 1"
    by (simp_all add: asNumber_def)
  from later_keeps[OF assms(2) c] have "cached st2 (cacheKey d la1 lo1) = Some s" .
  then have "cached st2 (cacheKey d la2 lo2) = Some s"
    using cacheKey_tenths[OF assms(3,4)] by simp
  then have 1: "fetchWeather e st2 d t2 (JNum la2) (JNum lo2) = Returns (Some s, st2)"
    using k by (simp add: fetchWeather_def asNumber_def)
  have 2: "weatherCache st'' = weatherCache st' \<and> fetches st'' \<le> fetches st' + 1"
    if "fetchWeather e' st' d' t' lat' lng' = Returns (None, st'')"
    for e' st' d' t' lat' lng' st''
    using fetchWeather_Returns[OF that] by (auto dest: cached_nonempty simp: formatWeather_nonempty)
  have 3: "fetches st'' = fetches st' + 1"
    if "fetchWeather e' st' d' t' (JNum la') (JNum lo') = Returns (r, st'')"
      "WEATHER_API_KEY e' \<noteq> []" "cached st' (cacheKey d' la' lo') = None"
    for e' st' d' t' la' lo' r st''
    using fetchWeather_Returns[OF that(1)] that(2,3) by (auto simp: asNumber_def)
  have 4: "fetchWeather e' st' d' t' lat' lng' = Returns (None, st')"
    if "WEATHER_API_KEY e' = []" for e' :: env and st' d' t' lat' lng'
    using that by (simp add: fetchWeather_def)
  from 1 f 2 3 4 show ?thesis by blast
qed

theorem weather_cache_idempotent_witness:
  "fetchWeather onlineEnv freshSession ''2025-06-14'' (Some (JStr ''05:47''))
       (JNum torreyLat) (JNum torreyLng)
     = Returns (Some (formatWeather clearPoint),
                \<lparr>weatherCache = [(''2025-06-14-329--1173'', formatWeather clearPoint)],
                   fetches = 1, randoms = 0\<rparr>)
   \<and> later onlineEnv
        \<lparr>weatherCache = [(''2025-06-14-329--1173'', formatWeather clearPoint)],
           fetches = 1, randoms = 0\<rparr>
        \<lparr>weatherCache = [(''2025-06-14-327--1172'', formatWeather clearPoint),
                          (''2025-06-14-329--1173'', formatWeather clearPoint)],
           fetches = 2, randoms = 1\<rparr>
   \<and> tenths nearbyLat = tenths torreyLat
   \<and> tenths nearbyLng = tenths torreyLng
   \<and> fetchWeather onlineEnv
        \<lparr>weatherCache = [(''2025-06-14-327--1172'', formatWeather clearPoint),
                          (''2025-06-14-329--1173'', formatWeather clearPoint)],
           fetches = 2, randoms = 1\<rparr>
        ''2025-06-14'' (Some (JStr ''20:11'')) (JNum nearbyLat) (JNum nearbyLng)
     = Returns (Some (formatWeather clearPoint),
                \<lparr>weatherCache = [(''2025-06-14-327--1172'', formatWeather clearPoint),
                                  (''2025-06-14-329--1173'', formatWeather clearPoint)],
                   fetches = 2, randoms = 1\<rparr>)"
proof -
  define fw where "fw = formatWeather clearPoint"
  define s1 where "s1 = \<lparr>weatherCache = [(''2025-06-14-329--1173'', fw)],
                           fetches = 1, randoms = 0\<rparr>"
  define s1r where "s1r = \<lparr>weatherCache = [(''2025-06-14-329--1173'', fw)],
                           fetches = 1, randoms = 1\<rparr>"
  define s2 where "s2 = \<lparr>weatherCache = [(''2025-06-14-327--1172'', fw),
                                           (''2025-06-14-329--1173'', fw)],
                           fetches = 2, randoms = 1\<rparr>"
  have 1: "fetchWeather onlineEnv freshSession ''2025-06-14'' (Some (JStr ''05:47''))
       (JNum torreyLat) (JNum torreyLng) = Returns (Some fw, s1)"
    by (simp add: fetchWeather_def onlineEnv_def freshSession_def asNumber_def cached_def
        cacheKey_torrey fw_def s1_def)
  have r: "s1r = s1\<lparr>randoms := randoms s1 + 1\<rparr>" by (simp add: s1r_def s1_def)
  have a: "later onlineEnv s1 s1r" unfolding r by (rule later_random[OF later_refl])
  have "fetchWeather onlineEnv s1r ''2025-06-14'' (Some (JStr ''06:10''))
       (JNum DEFAULT_LAT) (JNum DEFAULT_LNG) = Returns (Some fw, s2)"
    by (simp add: fetchWeather_def onlineEnv_def asNumber_def cached_def
        cacheKey_default fw_def s1r_def s2_def)
  from later_fetch[OF a this] have 2: "later onlineEnv s1 s2" .
  have 3: "tenths nearbyLat = tenths torreyLat" "tenths nearbyLng = tenths torreyLng"
    by (simp_all add: tenths_torreyLat tenths_nearbyLat tenths_torreyLng tenths_nearbyLng)
  from weather_cache_idempotent[OF 1 2 3, of "Some (JStr ''20:11'')"] 1 2 3
  show ?thesis unfolding fw_def s1_def s2_def by blast
qed

subsection \<open>The flat navigation sequence\<close>

lemma pushEach_append: "pushEach flat imgs = flat @ imgs"
proof -
  have "foldl (\<lambda>fl img. fl @ [img]) flat imgs = flat @ imgs"
    by (induction imgs arbitrary: flat) simp_all
  then show ?thesis by (simp add: pushEach_def)
qed

lemma buildFlat_concat: "buildFlat ds = concat (map imagesOf ds)"
proof -
  have "foldl (\<lambda>flat day. pushEach flat (imagesOf day)) acc ds = acc @ concat (map imagesOf ds)"
    for acc
    by (induction ds arbitrary: acc) (simp_all add: pushEach_append)
  then show ?thesis by (simp add: buildFlat_def)
qed

lemma init_Returns:
  assumes "init e lc raw = Returns pg"
  obtains processed st where
    "processDays e \<lparr>weatherCache = [], fetches = 0, randoms = 0\<rparr> raw = Returns (processed, st)"
    "DAYS pg = sortBy (\<lambda>a b. lc (dateOf b) (dateOf a)) processed"
    "FLAT pg = buildFlat (DAYS pg)" "finalSession pg = st"
  using assms by (auto simp: init_def Let_def split: outcome.splits)

text \<open>
  C4. After initialisation the flat sequence is the concatenation of the images of the
  days, taken in the final order of \<open>DAYS\<close> (the processed days sorted by descending date)
  and, inside a day, in the order of its \<open>images\<close>; so its length is the sum of the days'
  \<open>images.length\<close>, and the image at position \<open>j\<close> of the \<open>i\<close>-th day stands at the sum of
  the lengths before it plus \<open>j\<close>.
\<close>

theorem flat_is_concatenation:
  assumes "init e lc raw = Returns pg"
  shows "length (FLAT pg) = sum_list (map (\<lambda>d. length (imagesOf d)) (DAYS pg))
       \<and> FLAT pg = concat (map imagesOf (DAYS pg))
       \<and> (\<exists>processed st.
             processDays e \<lparr>weatherCache = [], fetches = 0, randoms = 0\<rparr> raw
               = Returns (processed, st)
             \<and> DAYS pg = sortBy (\<lambda>a b. lc (dateOf b) (dateOf a)) processed
             \<and> mset (DAYS pg) = mset processed)
       \<and> (agreesOn lc (dateOf ` set (DAYS pg))
            \<longrightarrow> sorted_wrt (\<lambda>a b. dateOf b \<le> dateOf a) (DAYS pg))
       \<and> (\<forall>i j. i < length (DAYS pg) \<and> j < length (imagesOf (DAYS pg ! i))
            \<longrightarrow> FLAT pg ! (sum_list (map (\<lambda>d. length (imagesOf d)) (take i (DAYS pg))) + j)
                = imagesOf (DAYS pg ! i) ! j)"
proof -
  from assms obtain processed st where
    p: "processDays e \<lparr>weatherCache = [], fetches = 0, randoms = 0\<rparr> raw = Returns (processed, st)"
    and d: "DAYS pg = sortBy (\<lambda>a b. lc (dateOf b) (dateOf a)) processed"
    and f: "FLAT pg = buildFlat (DAYS pg)" and s: "finalSession pg = st"
    by (rule init_Returns)
  have c: "FLAT pg = concat (map imagesOf (DAYS pg))"
    by (simp add: f buildFlat_concat)
  have l: "length (FLAT pg) = sum_list (map (\<lambda>d. length (imagesOf d)) (DAYS pg))"
    by (simp add: c length_concat comp_def)
  have srt: "sorted_wrt (\<lambda>a b. dateOf b \<le> dateOf a) (DAYS pg)"
    if "agreesOn lc (dateOf ` set (DAYS pg))"
  proof -
    from that have "agreesOn lc (dateOf ` set processed)" by (simp add: d set_sortBy)
    then show ?thesis unfolding d by (rule sortBy_by_key_desc)
  qed
  have nth: "FLAT pg ! (sum_list (map (\<lambda>d. length (imagesOf d)) (take i (DAYS pg))) + j)
                = imagesOf (DAYS pg ! i) ! j"
    if "i < length (DAYS pg)" "j < length (imagesOf (DAYS pg ! i))" for i j
  proof -
    let ?ds = "DAYS pg"
    have "?ds = take i ?ds @ ?ds ! i # drop (Suc i) ?ds"
      using that(1) by (simp add: id_take_nth_drop)
    then have "concat (map imagesOf ?ds) =
        concat (map imagesOf (take i ?ds)) @ imagesOf (?ds ! i) @ concat (map imagesOf (drop (Suc i) ?ds))"
      by (metis concat.simps(2) concat_append list.simps(9) map_append)
    moreover have "length (concat (map imagesOf (take i ?ds))) =
        sum_list (map (\<lambda>d. length (imagesOf d)) (take i ?ds))"
      by (simp add: length_concat comp_def)
    ultimately show ?thesis using that(2) by (simp add: c nth_append)
  qed
  show ?thesis
    using l c p d srt nth by (auto simp: mset_sortBy)
qed


lemma init_sample: "init noKeyEnv codeUnitCompare rawDays = Returns samplePage"
proof -
  have t: "tagOfTime ''19:58'' = ''sunset''" "tagOfTime ''05:47'' = ''sunrise''"
    by (simp_all add: tagOfTime_HHMM isDigit_def digitVal_def)
  have p: "processDays noKeyEnv \<lparr>weatherCache = [], fetches = 0, randoms = 0\<rparr> rawDays =
      Returns ([DAYS samplePage ! 1, DAYS samplePage ! 0], finalSession samplePage)"
    by (simp add: rawDays_def samplePage_def processDay_def processImage_def resolveTag_def
        resolveWeather_def resolveId_def assemble_def readProp_def field_def iterable_def
        orElse_def setProp_def noKeyEnv_def t defaultLocation_def)
  show ?thesis
    unfolding init_def p
    by (simp add: samplePage_def sortBy_def dateOf_def field_def codeUnitCompare_def
        buildFlat_concat imagesOf_def)
qed

theorem flat_is_concatenation_witness:
  "init noKeyEnv codeUnitCompare rawDays = Returns samplePage
   \<and> length (FLAT samplePage) = sum_list (map (\<lambda>d. length (imagesOf d)) (DAYS samplePage))
   \<and> FLAT samplePage = concat (map imagesOf (DAYS samplePage))
   \<and> length (FLAT samplePage) = 3"
  using flat_is_concatenation[OF init_sample] init_sample
  by (simp add: samplePage_def)
subsection \<open>Processed images\<close>

lemma field_assemble:
  "field (assemble img idv tag weather loc) ''location'' = Some (orElse loc (JStr defaultLocation))"
  "field (assemble img idv tag weather loc) ''weather'' = Some (orElse weather (JStr dash))"
  "field (assemble img idv tag weather loc) ''tag'' = Some tag"
  by (simp_all add: assemble_def field_def map_of_setProp_same map_of_setProp_other)

lemma truthy_orElse: "truthy (Some w) \<Longrightarrow> truthy (Some (orElse v w))"
  by (auto simp: orElse_def split: option.splits)

lemma orElse_truthy: "truthy v \<Longrightarrow> Some (orElse v w) = v"
  by (cases v) (auto simp: orElse_def)

lemma orElse_falsy: "\<not> truthy v \<Longrightarrow> orElse v w = w"
  by (cases v) (auto simp: orElse_def)

lemma resolveTag_Inr:
  assumes "resolveTag img = Inr tag"
  shows "truthy (field img ''tag'') \<and> Some tag = field img ''tag''
       \<or> \<not> truthy (field img ''tag'') \<and> (tag = JStr ''sunrise'' \<or> tag = JStr ''sunset'')"
proof (cases "truthy (field img ''tag'')")
  case True
  then show ?thesis using assms
    by (cases img) (auto simp: resolveTag_def readProp_def orElse_truthy)
next
  case False
  then obtain t where "getTag (field img ''time'') = Inr t" "tag = JStr t"
    using assms by (cases img) (auto simp: resolveTag_def readProp_def split: sum.splits)
  moreover then obtain s where "field img ''time'' = Some (JStr s)" "t = tagOfTime s"
    by (cases "field img ''time''" rule: getTag.cases) auto
  ultimately show ?thesis using False tagOfTime_range[of s] by auto
qed

lemma fetchWeather_cacheOk:
  assumes "cacheOk st" "fetchWeather e st d t lat lng = Returns (r, st1)"
  shows "cacheOk st1 \<and> (\<forall>s. r = Some s \<longrightarrow> (\<exists>w. s = formatWeather w))"
proof -
  have h: "\<exists>w. hit = formatWeather w" if "cached st k = Some hit" for k hit
  proof -
    from that have "(k, hit) \<in> set (weatherCache st)"
      by (auto simp: cached_def split: option.splits if_splits dest: map_of_SomeD)
    then show ?thesis using assms(1) by (auto simp: cacheOk_def)
  qed
  from fetchWeather_Returns[OF assms(2)] show ?thesis
  proof (elim disjE conjE exE)
    assume "r = None" "st1 = st"
    then show ?thesis using assms(1) by simp
  next
    fix la lo hit
    assume "cached st (cacheKey d la lo) = Some hit" "r = Some hit" "st1 = st"
    then show ?thesis using assms(1) h by auto
  next
    fix la lo ts
    assume "r = None" "st1 = st\<lparr>fetches := fetches st + 1\<rparr>"
    then show ?thesis using assms(1) by (simp add: cacheOk_def)
  next
    fix la lo ts w
    assume "r = Some (formatWeather w)"
      "st1 = st\<lparr>weatherCache := (cacheKey d la lo, formatWeather w) # weatherCache st,
                 fetches := fetches st + 1\<rparr>"
    then show ?thesis using assms(1) by (auto simp: cacheOk_def)
  qed
qed

lemma resolveWeather_Returns:
  assumes "cacheOk st" "resolveWeather e st d lat lng img = Returns (weather, st1)"
  shows "cacheOk st1
       \<and> (truthy (field img ''weather'') \<and> weather = field img ''weather''
           \<or> \<not> truthy weather
           \<or> (\<exists>w. weather = Some (JStr (formatWeather w))))"
proof (cases "\<not> truthy (field img ''weather'') \<and> WEATHER_API_KEY e \<noteq> []")
  case False
  then have "weather = field img ''weather''" "st1 = st"
    using assms(2) by (auto simp: resolveWeather_def)
  then show ?thesis using assms(1) by auto
next
  case True
  then obtain r where f: "fetchWeather e st d (field img ''time'') lat lng = Returns (r, st1)"
    and w: "weather = (case r of None \<Rightarrow> Some JNull | Some s \<Rightarrow> Some (JStr s))"
    using assms(2)
    by (auto simp: resolveWeather_def split: outcome.splits option.splits prod.splits)
  from fetchWeather_cacheOk[OF assms(1) f] show ?thesis
    using w by (cases r) auto
qed

lemma resolveId_session: "resolveId e st d img = Some (idv, st1) \<Longrightarrow> weatherCache st1 = weatherCache st"
  by (auto simp: resolveId_def split: if_splits option.splits)

lemma processImage_derived:
  assumes "cacheOk st" "processImage e st d lat lng loc img = Returns (r, st1)"
  shows "derivedFrom img loc r \<and> cacheOk st1"
proof -
  from assms(2) obtain tag weather st' idv where
    t: "resolveTag img = Inr tag"
    and w: "resolveWeather e st d lat lng img = Returns (weather, st')"
    and i: "resolveId e st' d img = Some (idv, st1)"
    and r: "r = assemble img idv tag weather loc"
    by (auto simp: processImage_def split: sum.splits outcome.splits option.splits prod.splits)
  from resolveWeather_Returns[OF assms(1) w] have c: "cacheOk st'"
    and wd: "truthy (field img ''weather'') \<and> weather = field img ''weather''
           \<or> \<not> truthy weather
           \<or> (\<exists>w. weather = Some (JStr (formatWeather w)))" by simp_all
  have c1: "cacheOk st1" using c resolveId_session[OF i] by (simp add: cacheOk_def)
  have tg: "truthy (field img ''tag'') \<and> field r ''tag'' = field img ''tag''
        \<or> \<not> truthy (field img ''tag'')
           \<and> (field r ''tag'' = Some (JStr ''sunrise'') \<or> field r ''tag'' = Some (JStr ''sunset''))"
    using resolveTag_Inr[OF t] by (auto simp: r field_assemble)
  have wt: "truthy (field img ''weather'') \<and> field r ''weather'' = field img ''weather''
          \<or> field r ''weather'' = Some (JStr dash)
          \<or> (\<exists>w. field r ''weather'' = Some (JStr (formatWeather w)))"
  proof (cases "truthy weather")
    case False
    then show ?thesis by (simp add: r field_assemble orElse_falsy)
  next
    case True
    then have "field r ''weather'' = weather" by (simp add: r field_assemble orElse_truthy)
    then show ?thesis using wd True by auto
  qed
  show ?thesis
    unfolding derivedFrom_def using tg wt c1 by (simp add: r field_assemble)
qed

lemma processImages_derived:
  "cacheOk st \<Longrightarrow> processImages e st d lat lng loc imgs = Returns (rs, st1) \<Longrightarrow>
   list_all2 (\<lambda>src r. derivedFrom src loc r) imgs rs \<and> cacheOk st1"
proof (induction imgs arbitrary: st rs)
  case Nil
  then show ?case by simp
next
  case (Cons img imgs)
  from Cons.prems(2) obtain r st' rs' where
    a: "processImage e st d lat lng loc img = Returns (r, st')"
    and b: "processImages e st' d lat lng loc imgs = Returns (rs', st1)"
    and rs: "rs = r # rs'"
    by (auto split: outcome.splits prod.splits)
  from processImage_derived[OF Cons.prems(1) a] Cons.IH[OF _ b] rs show ?case by simp
qed


lemma processDay_dated:
  assumes "field day ''date'' = Some (JStr d)"
  shows "processDay e st day =
     (case iterable (field day ''images'') of
        Inl err \<Rightarrow> Throws err
      | Inr imgs \<Rightarrow>
          (case processImages e st d (orElse (field day ''lat'') (JNum DEFAULT_LAT))
                  (orElse (field day ''lng'') (JNum DEFAULT_LNG)) (field day ''location'') imgs of
             Throws err \<Rightarrow> Throws err
           | Unmodelled \<Rightarrow> Unmodelled
           | Returns (pimgs, st1) \<Rightarrow>
               Returns (JObj (setProp ''images'' (JArr pimgs)
                              (setProp ''label'' (JStr (formatDateLabel e d)) (spread day))),
                        st1)))"
proof -
  from assms obtain fs where fs: "day = JObj fs" by (cases day) (auto simp: field_def)
  show ?thesis using assms unfolding fs by (simp add: processDay_def readProp_def)
qed

lemma processDay_needs_date:
  assumes "processDay e st day = Returns (p, st1)"
  shows "\<exists>d. field day ''date'' = Some (JStr d)"
proof (cases "field day ''date''")
  case None
  then show ?thesis using assms by (simp add: processDay_def split: sum.splits)
next
  case (Some v)
  then show ?thesis using assms by (cases v) (simp_all add: processDay_def split: sum.splits)
qed

lemma processDay_derived:
  assumes "cacheOk st" "processDay e st day = Returns (p, st1)"
  shows "dayDerived day p \<and> cacheOk st1"
proof -
  from processDay_needs_date[OF assms(2)] obtain d where d: "field day ''date'' = Some (JStr d)" ..
  then obtain fs where fs: "day = JObj fs" by (cases day) (auto simp: field_def)
  note pd = assms(2)[unfolded processDay_dated[OF d]]
  from pd obtain imgs where it: "iterable (field day ''images'') = Inr imgs"
    by (cases "iterable (field day ''images'')") simp_all
  note pd2 = pd[unfolded it, simplified]
  let ?pi = "processImages e st d (orElse (field day ''lat'') (JNum DEFAULT_LAT))
               (orElse (field day ''lng'') (JNum DEFAULT_LNG)) (field day ''location'') imgs"
  from pd2 obtain res where res: "?pi = Returns res"
    by (cases ?pi) simp_all
  obtain rs st' where rs: "res = (rs, st')" by (cases res)
  from pd2 res rs have st': "st' = st1"
    and p: "p = JObj (setProp ''images'' (JArr rs)
                  (setProp ''label'' (JStr (formatDateLabel e d)) (spread day)))"
    by simp_all
  have pi: "?pi = Returns (rs, st1)" using res rs st' by simp
  have im: "field p ''images'' = Some (JArr rs)"
    by (simp add: p field_def map_of_setProp_same)
  then have io: "imagesOf p = rs" by (simp add: imagesOf_def)
  have dt: "field p ''date'' = Some (JStr d)"
    using d by (simp add: p fs field_def map_of_setProp_other)
  from processImages_derived[OF assms(1) pi] have
    "list_all2 (\<lambda>src r. derivedFrom src (field day ''location'') r) imgs rs" "cacheOk st1"
    by simp_all
  then show ?thesis
    unfolding dayDerived_def using it im io d dt by auto
qed

lemma processDays_derived:
  "cacheOk st \<Longrightarrow> processDays e st raw = Returns (ps, st1) \<Longrightarrow>
   list_all2 dayDerived raw ps \<and> cacheOk st1"
proof (induction raw arbitrary: st ps)
  case Nil
  then show ?case by simp
next
  case (Cons day raw)
  from Cons.prems(2) obtain p st' ps' where
    a: "processDay e st day = Returns (p, st')"
    and b: "processDays e st' raw = Returns (ps', st1)"
    and ps: "ps = p # ps'"
    by (auto split: outcome.splits prod.splits)
  from processDay_derived[OF Cons.prems(1) a] have "dayDerived day p" "cacheOk st'"
    by simp_all
  with Cons.IH[OF _ b] ps show ?case by simp
qed

lemma list_all2_right_member:
  "list_all2 R xs ys \<Longrightarrow> y \<in> set ys \<Longrightarrow> \<exists>x \<in> set xs. R x y"
  by (induction rule: list_all2_induct) auto

lemma flat_images_derived:
  assumes "init e lc raw = Returns pg" "img \<in> set (FLAT pg)"
  shows "\<exists>day \<in> set raw. \<exists>imgs. iterable (field day ''images'') = Inr imgs
           \<and> (\<exists>src \<in> set imgs. derivedFrom src (field day ''location'') img)"
proof -
  from assms(1) obtain processed st where
    p: "processDays e \<lparr>weatherCache = [], fetches = 0, randoms = 0\<rparr> raw = Returns (processed, st)"
    and d: "DAYS pg = sortBy (\<lambda>a b. lc (dateOf b) (dateOf a)) processed"
    and f: "FLAT pg = buildFlat (DAYS pg)" and s: "finalSession pg = st"
    by (rule init_Returns)
  have "cacheOk \<lparr>weatherCache = [], fetches = 0, randoms = 0\<rparr>" by (simp add: cacheOk_def)
  from processDays_derived[OF this p] have l: "list_all2 dayDerived raw processed" by simp
  from assms(2) obtain q where q: "q \<in> set processed" "img \<in> set (imagesOf q)"
    by (auto simp: f buildFlat_concat d set_sortBy)
  then obtain day where day: "day \<in> set raw" "dayDerived day q"
    using list_all2_right_member[OF l] by blast
  then obtain imgs where it: "iterable (field day ''images'') = Inr imgs"
    and la: "list_all2 (\<lambda>src r. derivedFrom src (field day ''location'') r) imgs (imagesOf q)"
    unfolding dayDerived_def by blast
  from list_all2_right_member[OF la q(2)] obtain src where
    "src \<in> set imgs" "derivedFrom src (field day ''location'') img" by blast
  with day(1) it show ?thesis by blast
qed


lemma fetchWeather_total:
  "\<exists>r st1. fetchWeather e st d (Some (JStr t)) (JNum la) (JNum lo) = Returns (r, st1)"
proof (cases "WEATHER_API_KEY e = []")
  case True
  then show ?thesis by (simp add: fetchWeather_def)
next
  case False
  show ?thesis
  proof (cases "cached st (cacheKey d la lo)")
    case (Some hit)
    then show ?thesis using False by (simp add: fetchWeather_def asNumber_def)
  next
    case None
    then show ?thesis using False
      by (cases "network e (fetches st) d t la lo") (simp_all add: fetchWeather_def asNumber_def)
  qed
qed

lemma schemaImage_time:
  assumes "schemaImage img"
  obtains fs t where "img = JObj fs" "map_of fs ''time'' = Some (JStr t)"
proof -
  from assms obtain fs where fs: "img = JObj fs" by (cases img) (auto simp: schemaImage_def)
  with assms obtain v where v: "map_of fs ''time'' = Some v"
    by (cases "map_of fs ''time''") (auto simp: schemaImage_def)
  with assms fs obtain t where "map_of fs ''time'' = Some (JStr t)"
    by (cases v) (auto simp: schemaImage_def)
  with fs show ?thesis using that by blast
qed

lemma processImage_total:
  assumes "schemaImage img"
  shows "\<exists>r st1. processImage e st d (JNum la) (JNum lo) loc img = Returns (r, st1)"
proof -
  from assms obtain fs t where fs: "img = JObj fs" and t: "map_of fs ''time'' = Some (JStr t)"
    by (rule schemaImage_time)
  have tm: "field img ''time'' = Some (JStr t)" by (simp add: fs field_def t)
  have "\<exists>tag. resolveTag img = Inr tag"
    by (simp add: resolveTag_def readProp_def fs tm[unfolded fs])
  then obtain tag where tag: "resolveTag img = Inr tag" ..
  obtain r st' where "fetchWeather e st d (Some (JStr t)) (JNum la) (JNum lo) = Returns (r, st')"
    using fetchWeather_total by blast
  then have "\<exists>w st1. resolveWeather e st d (JNum la) (JNum lo) img = Returns (w, st1)"
    by (cases r) (simp_all add: resolveWeather_def tm)
  then obtain w st1 where w: "resolveWeather e st d (JNum la) (JNum lo) img = Returns (w, st1)"
    by blast
  have "\<exists>i st2. resolveId e st1 d img = Some (i, st2)"
    by (simp add: resolveId_def tm)
  then obtain i st2 where i: "resolveId e st1 d img = Some (i, st2)" by blast
  show ?thesis by (simp add: processImage_def tag w i)
qed

lemma processImages_total:
  assumes "list_all schemaImage imgs"
  shows "\<exists>rs st1. processImages e st d (JNum la) (JNum lo) loc imgs = Returns (rs, st1)"
  using assms
proof (induction imgs arbitrary: st)
  case Nil
  then show ?case by simp
next
  case (Cons img imgs)
  then obtain r st' where a: "processImage e st d (JNum la) (JNum lo) loc img = Returns (r, st')"
    using processImage_total[of img e st d la lo loc] by auto
  from Cons obtain rs st1 where
    "processImages e st' d (JNum la) (JNum lo) loc imgs = Returns (rs, st1)"
    by fastforce
  with a show ?case by simp
qed

lemma orElse_num: "absentOr isNum v \<Longrightarrow> \<exists>r. orElse v (JNum x) = JNum r"
  by (cases v) (auto simp: absentOr_def orElse_def isNum_def split: json.splits)

lemma schemaDay_parts:
  assumes "schemaDay day"
  obtains d imgs where "field day ''date'' = Some (JStr d)"
    "iterable (field day ''images'') = Inr imgs" "imagesOf day = imgs" "list_all schemaImage imgs"
    "absentOr isNum (field day ''lat'')" "absentOr isNum (field day ''lng'')"
    "absentOr isStr (field day ''location'')"
proof -
  from assms obtain fs where fs: "day = JObj fs" by (cases day) (auto simp: schemaDay_def)
  with assms obtain v where v: "map_of fs ''date'' = Some v"
    by (cases "map_of fs ''date''") (auto simp: schemaDay_def)
  with assms fs obtain d where d: "map_of fs ''date'' = Some (JStr d)"
    by (cases v) (auto simp: schemaDay_def)
  have n: "absentOr isNum (field day ''lat'')" "absentOr isNum (field day ''lng'')"
    "absentOr isStr (field day ''location'')"
    and im: "absentOr (\<lambda>v. case v of JArr imgs \<Rightarrow> list_all schemaImage imgs | _ \<Rightarrow> False)
                (map_of fs ''images'')"
    using assms d by (simp_all add: schemaDay_def fs field_def)
  have "\<exists>imgs. iterable (field day ''images'') = Inr imgs \<and> imagesOf day = imgs
          \<and> list_all schemaImage imgs"
  proof (cases "map_of fs ''images''")
    case None
    then show ?thesis by (simp add: iterable_def imagesOf_def fs field_def)
  next
    case (Some x)
    then show ?thesis using im
      by (cases x) (auto simp: iterable_def imagesOf_def fs field_def absentOr_def)
  qed
  with d n fs show ?thesis using that by (auto simp: field_def)
qed

lemma processDay_total:
  assumes "schemaDay day"
  shows "\<exists>p st1. processDay e st day = Returns (p, st1)"
proof -
  from assms obtain d imgs where d: "field day ''date'' = Some (JStr d)"
    and it: "iterable (field day ''images'') = Inr imgs" and sc: "list_all schemaImage imgs"
    and n: "absentOr isNum (field day ''lat'')" "absentOr isNum (field day ''lng'')"
    by (rule schemaDay_parts)
  from orElse_num[OF n(1)] orElse_num[OF n(2)] obtain la lo where
    l: "orElse (field day ''lat'') (JNum DEFAULT_LAT) = JNum la"
       "orElse (field day ''lng'') (JNum DEFAULT_LNG) = JNum lo" by blast
  from processImages_total[OF sc] obtain rs st1 where
    "processImages e st d (JNum la) (JNum lo) (field day ''location'') imgs = Returns (rs, st1)"
    by blast
  then show ?thesis by (simp add: processDay_dated[OF d] it l)
qed

lemma processDays_total:
  assumes "\<forall>day \<in> set raw. schemaDay day"
  shows "\<exists>ps st1. processDays e st raw = Returns (ps, st1)"
  using assms
proof (induction raw arbitrary: st)
  case Nil
  then show ?case by simp
next
  case (Cons day raw)
  then obtain p st' where a: "processDay e st day = Returns (p, st')"
    using processDay_total[of day e st] by auto
  from Cons obtain ps st1 where "processDays e st' raw = Returns (ps, st1)" by fastforce
  with a show ?case by simp
qed

lemma init_total:
  assumes "\<forall>day \<in> set raw. schemaDay day"
  shows "\<exists>pg. init e lc raw = Returns pg"
proof -
  from processDays_total[OF assms] obtain ps st1 where
    "processDays e \<lparr>weatherCache = [], fetches = 0, randoms = 0\<rparr> raw = Returns (ps, st1)"
    by blast
  then show ?thesis by (simp add: init_def Let_def)
qed

lemma dash_nonempty: "dash \<noteq> []"
  by (simp add: dash_def)

lemma derived_schema:
  assumes "schemaImage src" "absentOr isStr loc" "derivedFrom src loc r"
  shows "(field r ''tag'' = Some (JStr ''sunrise'') \<or> field r ''tag'' = Some (JStr ''sunset''))
       \<and> (\<exists>w. field r ''weather'' = Some (JStr w) \<and> w \<noteq> [])
       \<and> (\<exists>l. field r ''location'' = Some (JStr l) \<and> l \<noteq> [])"
proof -
  from assms(1) obtain fs where fs: "src = JObj fs" by (cases src) (auto simp: schemaImage_def)
  have tg: "absentOr (\<lambda>v. v = JStr ''sunrise'' \<or> v = JStr ''sunset'') (field src ''tag'')"
    and wt: "absentOr isStr (field src ''weather'')"
    using assms(1) by (simp_all add: schemaImage_def fs field_def)
  have 1: "field r ''tag'' = Some (JStr ''sunrise'') \<or> field r ''tag'' = Some (JStr ''sunset'')"
  proof (cases "truthy (field src ''tag'')")
    case True
    then have "field src ''tag'' = Some (JStr ''sunrise'') \<or> field src ''tag'' = Some (JStr ''sunset'')"
      using tg by (cases "field src ''tag''") (auto simp: absentOr_def)
    then show ?thesis using assms(3) True by (auto simp: derivedFrom_def)
  next
    case False
    then show ?thesis using assms(3) by (auto simp: derivedFrom_def)
  qed
  have sw: "\<exists>w. field src ''weather'' = Some (JStr w) \<and> w \<noteq> []" if "truthy (field src ''weather'')"
  proof -
    from that obtain v where v: "field src ''weather'' = Some v" by (cases "field src ''weather''") auto
    then show ?thesis using wt that by (cases v) (auto simp: absentOr_def isStr_def)
  qed
  have 2: "\<exists>w. field r ''weather'' = Some (JStr w) \<and> w \<noteq> []"
    using assms(3) sw dash_nonempty formatWeather_nonempty unfolding derivedFrom_def by metis
  have 3: "\<exists>l. field r ''location'' = Some (JStr l) \<and> l \<noteq> []"
  proof (cases "truthy loc")
    case True
    then obtain v where v: "loc = Some v" by (cases loc) auto
    then obtain l where "v = JStr l" "l \<noteq> []"
      using assms(2) True by (cases v) (auto simp: absentOr_def isStr_def)
    then show ?thesis using assms(3) v by (simp add: derivedFrom_def orElse_def)
  next
    case False
    then show ?thesis using assms(3)
      by (simp add: derivedFrom_def orElse_falsy defaultLocation_def)
  qed
  from 1 2 3 show ?thesis by blast
qed

text \<open>
  C6. For every day list of the content schema (each image carrying a \<open>time\<close>) the
  initialisation completes, and every image of the flat sequence has the tag \<open>sunrise\<close> or
  \<open>sunset\<close>, a non-empty \<open>weather\<close> string and a non-empty \<open>location\<close> string. The image
  is made from an image of an input day: its weather is the one given, or a string made by
  \<open>formatWeather\<close>, or else the placeholder dash; its location is the day's, or
  \<open>San Diego, CA\<close>.
\<close>

theorem flat_images_populated:
  assumes "\<forall>day \<in> set raw. schemaDay day"
  shows "\<exists>pg. init e lc raw = Returns pg
      \<and> (\<forall>img \<in> set (FLAT pg).
            (field img ''tag'' = Some (JStr ''sunrise'') \<or> field img ''tag'' = Some (JStr ''sunset''))
          \<and> (\<exists>w. field img ''weather'' = Some (JStr w) \<and> w \<noteq> [])
          \<and> (\<exists>l. field img ''location'' = Some (JStr l) \<and> l \<noteq> [])
          \<and> (\<exists>day \<in> set raw. \<exists>src \<in> set (imagesOf day).
                 derivedFrom src (field day ''location'') img))"
proof -
  from init_total[OF assms] obtain pg where pg: "init e lc raw = Returns pg" ..
  have "(field img ''tag'' = Some (JStr ''sunrise'') \<or> field img ''tag'' = Some (JStr ''sunset''))
          \<and> (\<exists>w. field img ''weather'' = Some (JStr w) \<and> w \<noteq> [])
          \<and> (\<exists>l. field img ''location'' = Some (JStr l) \<and> l \<noteq> [])
          \<and> (\<exists>day \<in> set raw. \<exists>src \<in> set (imagesOf day).
                 derivedFrom src (field day ''location'') img)"
    if "img \<in> set (FLAT pg)" for img
  proof -
    from flat_images_derived[OF pg that] obtain day imgs src where
      day: "day \<in> set raw" and it: "iterable (field day ''images'') = Inr imgs"
      and src: "src \<in> set imgs" and dv: "derivedFrom src (field day ''location'') img"
      by blast
    from assms day have "schemaDay day" by blast
    then obtain imgs' where it': "iterable (field day ''images'') = Inr imgs'"
      and io: "imagesOf day = imgs'" and sc: "list_all schemaImage imgs'"
      and lo: "absentOr isStr (field day ''location'')"
      by (rule schemaDay_parts)
    from it it' have e: "imgs' = imgs" by simp
    then have "schemaImage src" using sc src by (simp add: list_all_iff)
    from derived_schema[OF this lo dv] day src dv io e show ?thesis by blast
  qed
  with pg show ?thesis by blast
qed

theorem flat_images_populated_witness:
  "list_all schemaDay rawDays
   \<and> init noKeyEnv codeUnitCompare rawDays = Returns samplePage
   \<and> list_all (\<lambda>img. (field img ''tag'' = Some (JStr ''sunrise'')
                       \<or> field img ''tag'' = Some (JStr ''sunset''))
                    \<and> (\<exists>w. field img ''weather'' = Some (JStr w) \<and> w \<noteq> [])
                    \<and> (\<exists>l. field img ''location'' = Some (JStr l) \<and> l \<noteq> []))
        (FLAT samplePage)"
proof -
  have s: "list_all schemaDay rawDays"
    by (simp add: rawDays_def schemaDay_def schemaImage_def absentOr_def isStr_def)
  then have "\<forall>day \<in> set rawDays. schemaDay day" by (simp add: list_all_iff)
  from flat_images_populated[OF this, of noKeyEnv codeUnitCompare] init_sample s
  show ?thesis by (auto simp: list_all_iff)
qed

section \<open>Properties of week grouping\<close>

subsection \<open>Buckets\<close>

lemma bucket_None: "bucket ws k = None \<longleftrightarrow> k \<notin> sunday ` set ws"
  by (simp add: bucket_def map_of_eq_None_iff image_image)

lemma bucket_map:
  "bucket (map (\<lambda>w. if sunday w = k then w\<lparr>weekDays := weekDays w @ [day]\<rparr> else w) ws) k' =
     map_option (\<lambda>ds. if k' = k then ds @ [day] else ds) (bucket ws k')"
  by (induction ws) (auto simp: bucket_def)

lemma bucket_append_new:
  "bucket (ws @ [\<lparr>sunday = k, weekDays = []\<rparr>]) k' =
     (case bucket ws k' of Some ds \<Rightarrow> Some ds | None \<Rightarrow> if k' = k then Some [] else None)"
  by (auto simp: bucket_def map_add_def split: option.splits)

lemma bucket_addToWeek:
  "bucket (addToWeek k day ws) k' =
     (if k' = k then Some ((case bucket ws k of Some ds \<Rightarrow> ds | None \<Rightarrow> []) @ [day])
      else bucket ws k')"
proof (cases "k \<in> sunday ` set ws")
  case True
  then obtain ds where "bucket ws k = Some ds"
    using bucket_None[of ws k] by (cases "bucket ws k") auto
  then show ?thesis using True
    by (cases "bucket ws k'") (auto simp: addToWeek_def bucket_map)
next
  case False
  then have n: "bucket ws k = None" by (simp add: bucket_None)
  define X where "X = ws @ [\<lparr>sunday = k, weekDays = []\<rparr>]"
  have a: "addToWeek k day ws
           = map (\<lambda>w. if sunday w = k then w\<lparr>weekDays := weekDays w @ [day]\<rparr> else w) X"
    using False unfolding X_def addToWeek_def Let_def by (simp only: if_False)
  have x: "bucket X k' = (case bucket ws k' of Some ds \<Rightarrow> Some ds
                          | None \<Rightarrow> if k' = k then Some [] else None)"
    unfolding X_def by (rule bucket_append_new)
  show ?thesis unfolding a bucket_map x using n by (auto split: option.splits)
qed

lemma keys_addToWeek:
  "map sunday (addToWeek k day ws) =
     (if k \<in> sunday ` set ws then map sunday ws else map sunday ws @ [k])"
  by (auto simp: addToWeek_def comp_def intro!: map_cong)

lemma weekLoop_keys:
  "weekLoop tz ds ws = Inr ws' \<Longrightarrow> \<forall>day \<in> set ds. \<exists>k. weekKey tz day = Inr k"
  by (induction ds arbitrary: ws) (auto split: sum.splits)

lemma weekLoop_distinct:
  "weekLoop tz ds ws = Inr ws' \<Longrightarrow> distinct (map sunday ws) \<Longrightarrow> distinct (map sunday ws')"
proof (induction ds arbitrary: ws)
  case Nil
  then show ?case by simp
next
  case (Cons day ds)
  from Cons.prems(1) obtain k where k: "weekKey tz day = Inr k"
    and r: "weekLoop tz ds (addToWeek k day ws) = Inr ws'"
    by (auto split: sum.splits)
  have "distinct (map sunday (addToWeek k day ws))"
    using Cons.prems(2) by (auto simp: keys_addToWeek)
  from Cons.IH[OF r this] show ?case .
qed

lemma keyed_Cons:
  "keyed tz k (day # ds) = (if weekKey tz day = Inr k then day # keyed tz k ds else keyed tz k ds)"
  by (simp add: keyed_def)

lemma weekLoop_bucket:
  "weekLoop tz ds ws = Inr ws' \<Longrightarrow>
   bucket ws' k =
     (case bucket ws k of
        Some xs \<Rightarrow> Some (xs @ keyed tz k ds)
      | None \<Rightarrow> if keyed tz k ds = [] then None else Some (keyed tz k ds))"
proof (induction ds arbitrary: ws)
  case Nil
  then show ?case by (auto simp: keyed_def split: option.splits)
next
  case (Cons day ds)
  from Cons.prems obtain k' where k': "weekKey tz day = Inr k'"
    and r: "weekLoop tz ds (addToWeek k' day ws) = Inr ws'"
    by (auto split: sum.splits)
  show ?case
  proof (cases "k = k'")
    case False
    then show ?thesis
      using Cons.IH[OF r] k' by (simp add: bucket_addToWeek keyed_Cons split: option.splits)
  next
    case True
    then show ?thesis
      using Cons.IH[OF r] k'
      by (cases "bucket ws k'") (simp_all add: bucket_addToWeek keyed_Cons)
  qed
qed

lemma bucket_member:
  assumes "distinct (map sunday ws)" "w \<in> set ws"
  shows "bucket ws (sunday w) = Some (weekDays w)"
proof -
  have "distinct (map fst (map (\<lambda>w. (sunday w, weekDays w)) ws))"
    using assms(1) by (simp add: comp_def)
  moreover have "(sunday w, weekDays w) \<in> set (map (\<lambda>w. (sunday w, weekDays w)) ws)"
    using assms(2) by auto
  ultimately show ?thesis unfolding bucket_def by (rule map_of_is_SomeI)
qed

lemma groupByWeek_Inr:
  assumes "groupByWeek tz lc ds = Inr weeks"
  obtains ws where "weekLoop tz ds [] = Inr ws"
    "weeks = sortBy (\<lambda>a b. lc (sunday b) (sunday a)) ws"
  using assms by (auto simp: groupByWeek_def split: sum.splits)

lemma groupByWeek_buckets:
  assumes "groupByWeek tz lc ds = Inr weeks"
  shows "distinct (map sunday weeks)"
    and "\<And>w. w \<in> set weeks \<Longrightarrow> weekDays w = keyed tz (sunday w) ds \<and> weekDays w \<noteq> []"
    and "\<And>day. day \<in> set ds \<Longrightarrow> \<exists>w \<in> set weeks. weekKey tz day = Inr (sunday w)"
    and "agreesOn lc (sunday ` set weeks) \<Longrightarrow> sorted_wrt (\<lambda>a b. sunday b \<le> sunday a) weeks"
proof -
  from assms obtain ws where l: "weekLoop tz ds [] = Inr ws"
    and s: "weeks = sortBy (\<lambda>a b. lc (sunday b) (sunday a)) ws"
    by (rule groupByWeek_Inr)
  have d: "distinct (map sunday ws)" using weekLoop_distinct[OF l] by simp
  have b: "bucket ws k = (if keyed tz k ds = [] then None else Some (keyed tz k ds))" for k
    using weekLoop_bucket[OF l, of k] by (simp add: bucket_def)
  have "mset (map sunday weeks) = mset (map sunday ws)"
    by (simp add: s mset_sortBy)
  then show "distinct (map sunday weeks)"
    using d mset_eq_imp_distinct_iff by blast
  show "weekDays w = keyed tz (sunday w) ds \<and> weekDays w \<noteq> []" if "w \<in> set weeks" for w
  proof -
    from that have "w \<in> set ws" by (simp add: s set_sortBy)
    from bucket_member[OF d this] b[of "sunday w"] show ?thesis
      by (auto split: if_splits)
  qed
  show "\<exists>w \<in> set weeks. weekKey tz day = Inr (sunday w)" if "day \<in> set ds" for day
  proof -
    from weekLoop_keys[OF l] that obtain k where k: "weekKey tz day = Inr k" by blast
    then have "keyed tz k ds \<noteq> []" using that by (auto simp: keyed_def filter_empty_conv)
    then have "bucket ws k \<noteq> None" by (simp add: b)
    then have "k \<in> sunday ` set ws" by (simp add: bucket_None)
    then show ?thesis using k by (auto simp: s set_sortBy)
  qed
  show "sorted_wrt (\<lambda>a b. sunday b \<le> sunday a) weeks" if "agreesOn lc (sunday ` set weeks)"
  proof -
    from that have "agreesOn lc (sunday ` set ws)" by (simp add: s set_sortBy)
    then show ?thesis unfolding s by (rule sortBy_by_key_desc)
  qed
qed

subsection \<open>The key of a date\<close>

lemma unsignedDecimal_four_digits:
  assumes "isDigit a" "isDigit b" "isDigit c" "isDigit d"
  shows "unsignedDecimal [a, b, c, d] = clip (of_int (digitsVal [a, b, c, d]))"
  using assms by (simp add: unsignedDecimal_def isDigit_not_special scale10_def)

lemma Number_four_digits:
  assumes "isDigit a" "isDigit b" "isDigit c" "isDigit d"
  shows "Number [a, b, c, d]
         = Fin (of_int (1000 * digitVal a + 100 * digitVal b + 10 * digitVal c + digitVal d))"
proof -
  define n where "n = 1000 * digitVal a + 100 * digitVal b + 10 * digitVal c + digitVal d"
  have dv: "digitsVal [a, b, c, d] = n"
    by (simp add: digitsVal_def n_def)
  have t: "trim [a, b, c, d] = [a, b, c, d]"
    using assms by (simp add: trim_def isDigit_not_special)
  have "b \<noteq> CHR ''x''" "b \<noteq> CHR ''X''" "b \<noteq> CHR ''o''" "b \<noteq> CHR ''O''" "b \<noteq> CHR ''b''"
    "b \<noteq> CHR ''B''"
    using assms(2) by (auto simp: isDigit_def)
  then have r: "radixLiteral [a, b, c, d] = None"
    by (simp add: radixLiteral_def)
  have "0 \<le> n" "n \<le> 1000000"
    using digitVal_le[OF assms(1)] digitVal_le[OF assms(2)] digitVal_le[OF assms(3)]
      digitVal_le[OF assms(4)] digitVal_ge[OF assms(1)] digitVal_ge[OF assms(2)]
      digitVal_ge[OF assms(3)] digitVal_ge[OF assms(4)]
    by (simp_all add: n_def)
  then have c: "clip (of_int n) = Fin (of_int n)"
    by (rule clip_of_int)
  have "Number [a, b, c, d] = unsignedDecimal [a, b, c, d]"
    using assms by (simp add: Number_def t r isDigit_not_special)
  also have "\<dots> = Fin (of_int n)"
    by (simp only: unsignedDecimal_four_digits[OF assms] dv c)
  finally show ?thesis by (simp only: n_def)
qed

lemma splitOn_date:
  assumes "list_all isDigit [y1, y2, y3, y4, m1, m2, d1, d2]"
  shows "splitOn CHR ''-'' [y1, y2, y3, y4, CHR ''-'', m1, m2, CHR ''-'', d1, d2]
         = [[y1, y2, y3, y4], [m1, m2], [d1, d2]]"
  using assms by (simp add: isDigit_not_special)

lemma MakeDay_month:
  assumes "1 \<le> m" "m \<le> 12"
  shows "MakeDay y (m - 1) d = daysFromCivil y m d"
proof -
  have "(m - 1) div 12 = 0" "(m - 1) mod 12 = m - 1" using assms by auto
  then show ?thesis by (simp add: MakeDay_def daysFromCivil_def Let_def)
qed

lemma daysFromCivil_bounds:
  assumes "100 \<le> y" "y \<le> 9999" "1 \<le> m" "m \<le> 12" "1 \<le> d" "d \<le> 31"
  shows "- 700000 \<le> daysFromCivil y m d" "daysFromCivil y m d \<le> 3000000"
  using assms unfolding daysFromCivil_def Let_def by (auto split: if_splits)

lemma dateNumber_Some:
  assumes "dateNumber s = Some N"
  obtains y1 y2 y3 y4 m1 m2 d1 d2 y m d where
    "s = [y1, y2, y3, y4, CHR ''-'', m1, m2, CHR ''-'', d1, d2]"
    "list_all isDigit [y1, y2, y3, y4, m1, m2, d1, d2]"
    "y = 1000 * digitVal y1 + 100 * digitVal y2 + 10 * digitVal y3 + digitVal y4"
    "m = 10 * digitVal m1 + digitVal m2" "d = 10 * digitVal d1 + digitVal d2"
    "100 \<le> y" "y \<le> 9999" "1 \<le> m" "m \<le> 12" "1 \<le> d" "d \<le> 31"
    "N = daysFromCivil y m d"
proof -
  from assms obtain y1 y2 y3 y4 s1 m1 m2 s2 d1 d2 where
    s: "s = [y1, y2, y3, y4, s1, m1, m2, s2, d1, d2]"
    by (cases s rule: dateNumber.cases) simp_all
  define y where "y = 1000 * digitVal y1 + 100 * digitVal y2 + 10 * digitVal y3 + digitVal y4"
  define m where "m = 10 * digitVal m1 + digitVal m2"
  define d where "d = 10 * digitVal d1 + digitVal d2"
  from assms have c: "list_all isDigit [y1, y2, y3, y4, m1, m2, d1, d2]" "s1 = CHR ''-''"
    "s2 = CHR ''-''" "100 \<le> y" "1 \<le> m" "m \<le> 12" "1 \<le> d" "d \<le> 31"
    and n: "N = daysFromCivil y m d"
    unfolding s y_def m_def d_def by (auto simp: Let_def split: if_splits)
  have "y \<le> 9999"
    using c(1) digitVal_le[of y1] digitVal_le[of y2] digitVal_le[of y3] digitVal_le[of y4]
    by (simp add: y_def)
  with s c n y_def m_def d_def show ?thesis by (intro that[of y1 y2 y3 y4 m1 m2 d1 d2 y m d]) simp_all
qed

lemma pad_length: "w \<le> length (pad w k)"
  by (simp add: pad_def)

lemma weekDay_range: "0 \<le> weekDay n" "weekDay n \<le> 6"
  by (simp_all add: weekDay_def)

lemma getWeekSunday_key:
  assumes "dateNumber s = Some N" "- msPerDay < tz" "tz < msPerDay"
  shows "getWeekSunday tz s
         = Inr (take 10 (isoDate (N - weekDay N - (if 0 < tz then 1 else 0))))"
proof -
  from assms(1) obtain y1 y2 y3 y4 m1 m2 d1 d2 y m d where
    s: "s = [y1, y2, y3, y4, CHR ''-'', m1, m2, CHR ''-'', d1, d2]"
    and dg: "list_all isDigit [y1, y2, y3, y4, m1, m2, d1, d2]"
    and y: "y = 1000 * digitVal y1 + 100 * digitVal y2 + 10 * digitVal y3 + digitVal y4"
    and m: "m = 10 * digitVal m1 + digitVal m2" and d: "d = 10 * digitVal d1 + digitVal d2"
    and r: "100 \<le> y" "y \<le> 9999" "1 \<le> m" "m \<le> 12" "1 \<le> d" "d \<le> 31"
    and N: "N = daysFromCivil y m d"
    by (rule dateNumber_Some)
  have ps: "map Number (splitOn CHR ''-'' s) = [Fin (of_int y), Fin (of_int m), Fin (of_int d)]"
    using dg unfolding s splitOn_date[OF dg] y m d
    by (simp add: Number_four_digits Number_two_digits)
  define mm where "mm = m - 1"
  have m1': "numAdd (Fin (of_int m)) (Fin (- 1)) = Fin (of_int mm)"
  proof -
    have "\<bar>of_int m + (- 1) :: rat\<bar> \<le> 1000000"
      using r(3,4) by (simp add: abs_le_iff)
    then show ?thesis by (simp add: clip_small mm_def)
  qed
  have ti: "toInt (Fin (of_int k)) = Some k" for k
    by (simp add: toInt_def)
  have b1: "- 700000 \<le> daysFromCivil y m 1" "daysFromCivil y m 1 \<le> 3000000"
    using daysFromCivil_bounds[of y m 1] r by simp_all
  have bN: "- 700000 \<le> N" "N \<le> 3000000"
    using daysFromCivil_bounds[of y m d] r N by simp_all
  have tzb: "- 86400000 < tz" "tz < 86400000" using assms(2,3) by (simp_all add: msPerDay_def)
  have wd: "0 \<le> weekDay N" "weekDay N \<le> 6" by (rule weekDay_range)+
  have d0: "newDate tz (Fin (of_int y)) (Fin (of_int mm)) (Fin (of_int d))
            = Some (N * msPerDay - tz)"
  proof -
    have "MakeDay y mm 1 = daysFromCivil y m 1" "MakeDay y mm d = N"
      using MakeDay_month[OF r(3,4)] N by (simp_all add: mm_def)
    moreover have "\<bar>daysFromCivil y m 1 * msPerDay\<bar> \<le> maxTime"
      using b1 by (simp add: msPerDay_def maxTime_def abs_le_iff)
    moreover have "\<bar>N * msPerDay - tz\<bar> \<le> maxTime"
      using bN tzb by (simp add: msPerDay_def maxTime_def abs_le_iff)
    ultimately show ?thesis using r(1)
      by (simp add: newDate_def ti TimeClip_def Let_def)
  qed
  have nz: "msPerDay \<noteq> 0" by (simp add: msPerDay_def)
  have gd: "getDay tz (Some (N * msPerDay - tz)) = Some (weekDay N)"
    by (simp add: getDay_def nz)
  define dom where "dom = snd (snd (civilFromDays N))"
  have gt: "getDate tz (Some (N * msPerDay - tz)) = Some dom"
    by (simp add: getDate_def nz dom_def)
  have sd: "setDate tz (Some (dom - weekDay N)) (Some (N * msPerDay - tz))
            = Some ((N - weekDay N) * msPerDay - tz)"
  proof -
    have "\<bar>(N - weekDay N) * msPerDay - tz\<bar> \<le> maxTime"
      using bN tzb wd by (simp add: msPerDay_def maxTime_def abs_le_iff)
    then show ?thesis
      by (simp add: setDate_def Let_def nz dom_def[symmetric] TimeClip_def)
  qed
  have dd: "((N - weekDay N) * msPerDay - tz) div msPerDay
            = N - weekDay N - (if 0 < tz then 1 else 0)"
  proof -
    have "((N - weekDay N) * msPerDay - tz) div msPerDay = (N - weekDay N) + (- tz) div msPerDay"
      by (simp add: msPerDay_def)
    moreover have "(- tz) div msPerDay = (if 0 < tz then - 1 else 0)"
    proof (cases "0 < tz")
      case True
      have "(- tz) div 86400000 = - 1"
        using True tzb by (simp add: div_eq_minus1 zdiv_zminus1_eq_if)
      then show ?thesis using True by (simp add: msPerDay_def)
    next
      case False
      then have "(- tz) div 86400000 = 0" using tzb by (simp add: zdiv_eq_0_iff)
      then show ?thesis using False by (simp add: msPerDay_def)
    qed
    ultimately show ?thesis by simp
  qed
  have len: "10 \<le> length (isoDate n)" for n
  proof -
    obtain y' m' d' where c: "civilFromDays n = (y', m', d')" by (cases "civilFromDays n")
    have "4 \<le> length (pad 4 y')" "6 \<le> length (pad 6 \<bar>y'\<bar>)" "2 \<le> length (pad 2 m')"
      "2 \<le> length (pad 2 d')"
      by (rule pad_length)+
    then show ?thesis by (simp add: isoDate_def c)
  qed
  define K where "K = N - weekDay N - (if 0 < tz then 1 else 0)"
  have "getWeekSunday tz s
        = Inr (take 10 (isoDate K @ isoTime (((N - weekDay N) * msPerDay - tz) mod msPerDay)))"
  proof -
    have p: "part [Fin (of_int y), Fin (of_int m), Fin (of_int d)] 0 = Fin (of_int y)"
      "part [Fin (of_int y), Fin (of_int m), Fin (of_int d)] 1 = Fin (of_int m)"
      "part [Fin (of_int y), Fin (of_int m), Fin (of_int d)] 2 = Fin (of_int d)"
      by (simp_all add: part_def)
    have mi: "minus (Some dom) (Some (weekDay N)) = Some (dom - weekDay N)"
      by (simp add: minus_def)
    show ?thesis
      unfolding getWeekSunday_def Let_def ps p m1' d0 gd gt mi sd
      by (simp add: toISOString_def dd K_def)
  qed
  then show ?thesis using len[of K] by (simp add: K_def)
qed

lemma weekKey_dated:
  assumes "field day ''date'' = Some (JStr s)"
  shows "weekKey tz day = getWeekSunday tz s"
  using assms by (cases day) (simp_all add: weekKey_def readProp_def field_def)

lemma weekLoop_total:
  assumes "- msPerDay < tz" "tz < msPerDay" "\<forall>day \<in> set ds. datedDay day"
  shows "\<exists>ws'. weekLoop tz ds ws = Inr ws'"
  using assms(3)
proof (induction ds arbitrary: ws)
  case Nil
  then show ?case by simp
next
  case (Cons day ds)
  then have "datedDay day" by simp
  then obtain s N where s: "field day ''date'' = Some (JStr s)" "dateNumber s = Some N"
    by (auto simp: datedDay_def split: option.splits json.splits)
  have "\<exists>k. weekKey tz day = Inr k"
    using weekKey_dated[OF s(1)] getWeekSunday_key[OF s(2) assms(1,2)] by simp
  then obtain k where "weekKey tz day = Inr k" ..
  then show ?case using Cons.IH[of "addToWeek k day ws"] Cons.prems by simp
qed

text \<open>A Sunday and the Saturday six days later have one key.\<close>

lemma saturday_with_sunday:
  assumes "dateNumber s1 = Some N" "dateNumber s2 = Some (N + 6)" "weekDay N = 0"
    and "- msPerDay < tz" "tz < msPerDay"
  shows "getWeekSunday tz s2 = getWeekSunday tz s1"
proof -
  have "weekDay (N + 6) = 6" using assms(3) unfolding weekDay_def by presburger
  then show ?thesis
    using getWeekSunday_key[OF assms(1,4,5)] getWeekSunday_key[OF assms(2,4,5)] assms(3)
    by simp
qed

subsection \<open>The sample days\<close>

lemma showNat_date_parts:
  "showNat 2025 = ''2025''" "showNat 6 = ''6''" "showNat 14 = ''14''" "showNat 15 = ''15''"
  "showNat 22 = ''22''"
  by (simp_all add: showNat.simps digitChar_def)

lemma isoDate_samples:
  "isoDate 20253 = ''2025-06-14''" "isoDate 20254 = ''2025-06-15''"
  "isoDate 20261 = ''2025-06-22''"
  by (simp_all add: isoDate_def civilFromDays_def Let_def pad_def showNat_date_parts)

lemma dateNumber_samples:
  "dateNumber ''2025-06-15'' = Some 20254" "dateNumber ''2025-06-21'' = Some 20260"
  "dateNumber ''2025-06-23'' = Some 20262"
  by (simp_all add: isDigit_def digitVal_def daysFromCivil_def Let_def)

lemma weekDay_samples: "weekDay 20254 = 0" "weekDay 20260 = 6" "weekDay 20262 = 1"
  by (simp_all add: weekDay_def)

lemma tz_samples:
  "- msPerDay < tzSanDiego" "tzSanDiego < msPerDay" "\<not> 0 < tzSanDiego"
  "- msPerDay < tzTokyo" "tzTokyo < msPerDay" "0 < tzTokyo"
  by (simp_all add: msPerDay_def tzSanDiego_def tzTokyo_def)

lemma getWeekSunday_samples:
  "getWeekSunday tzSanDiego ''2025-06-15'' = Inr ''2025-06-15''"
  "getWeekSunday tzSanDiego ''2025-06-21'' = Inr ''2025-06-15''"
  "getWeekSunday tzSanDiego ''2025-06-23'' = Inr ''2025-06-22''"
  "getWeekSunday tzTokyo ''2025-06-15'' = Inr ''2025-06-14''"
  using getWeekSunday_key[OF dateNumber_samples(1) tz_samples(1,2)]
    getWeekSunday_key[OF dateNumber_samples(2) tz_samples(1,2)]
    getWeekSunday_key[OF dateNumber_samples(3) tz_samples(1,2)]
    getWeekSunday_key[OF dateNumber_samples(1) tz_samples(4,5)]
  by (simp_all add: weekDay_samples tz_samples isoDate_samples)

lemma weekKey_samples:
  "weekKey tzSanDiego sundayDay = Inr ''2025-06-15''"
  "weekKey tzSanDiego saturdayDay = Inr ''2025-06-15''"
  "weekKey tzSanDiego mondayNextDay = Inr ''2025-06-22''"
  by (simp_all add: weekKey_def readProp_def field_def sundayDay_def saturdayDay_def
      mondayNextDay_def getWeekSunday_samples)

text \<open>
  C5, as stated, fails. The days of a bucket keep their incoming order, so a day dated on
  a Sunday is the first member of its bucket only when it comes first among the days of
  its week: in a list that has the Saturday before the Sunday (the newest-first order the
  page keeps its days in) the Sunday is the second member. And the key is the date of
  that Sunday only at or west of UTC: the key is the UTC date of the local midnight, which
  east of UTC (Tokyo) is the day before, so Sunday 2025-06-15 gets the key 2025-06-14.
\<close>

theorem sunday_not_first_in_bucket_counterexample:
  "groupByWeek tzSanDiego codeUnitCompare [saturdayDay, sundayDay]
     = Inr [\<lparr>sunday = ''2025-06-15'', weekDays = [saturdayDay, sundayDay]\<rparr>]
   \<and> field sundayDay ''date'' = Some (JStr ''2025-06-15'')
   \<and> dateNumber ''2025-06-15'' = Some 20254 \<and> weekDay 20254 = 0
   \<and> getWeekSunday tzTokyo ''2025-06-15'' = Inr ''2025-06-14''"
proof -
  have "groupByWeek tzSanDiego codeUnitCompare [saturdayDay, sundayDay]
     = Inr [\<lparr>sunday = ''2025-06-15'', weekDays = [saturdayDay, sundayDay]\<rparr>]"
    by (simp add: groupByWeek_def weekKey_samples addToWeek_def sortBy_def)
  moreover have "field sundayDay ''date'' = Some (JStr ''2025-06-15'')"
    by (simp add: sundayDay_def field_def)
  ultimately show ?thesis
    using dateNumber_samples(1) weekDay_samples(1) getWeekSunday_samples(4) by blast
qed

text \<open>
  C5, amended. For a date string \<open>YYYY-MM-DD\<close> with day number \<open>N\<close>, the key is the ISO
  date of day \<open>N\<close> less its day of the week (Sunday = 0) in whole days, at or west of UTC;
  east of UTC it is the date one day earlier. In either case a Sunday and the Saturday six
  days after it have the same key. For every day list that \<open>groupByWeek\<close> accepts (every
  list of days with dates of that form is accepted), the buckets have distinct keys, none
  is empty, each holds exactly the days with its key in their incoming order, every day is
  in the bucket of its key, and the buckets are in descending order of their keys where
  \<open>localeCompare\<close> orders the keys as their code units do.
\<close>

theorem week_bucketing:
  assumes "groupByWeek tz lc ds = Inr weeks"
  shows "distinct (map sunday weeks)
       \<and> (\<forall>w \<in> set weeks. weekDays w \<noteq> []
             \<and> weekDays w = filter (\<lambda>day. weekKey tz day = Inr (sunday w)) ds)
       \<and> (\<forall>day \<in> set ds. \<exists>w \<in> set weeks. weekKey tz day = Inr (sunday w)
             \<and> day \<in> set (weekDays w))
       \<and> (agreesOn lc (sunday ` set weeks) \<longrightarrow> sorted_wrt (\<lambda>a b. sunday b \<le> sunday a) weeks)
       \<and> (\<forall>s N tz'. dateNumber s = Some N \<and> - msPerDay < tz' \<and> tz' < msPerDay
             \<longrightarrow> getWeekSunday tz' s
                  = Inr (take 10 (isoDate (N - weekDay N - (if 0 < tz' then 1 else 0)))))
       \<and> (\<forall>s1 s2 N tz'. dateNumber s1 = Some N \<and> dateNumber s2 = Some (N + 6) \<and> weekDay N = 0
               \<and> - msPerDay < tz' \<and> tz' < msPerDay
             \<longrightarrow> getWeekSunday tz' s2 = getWeekSunday tz' s1)
       \<and> (\<forall>tz' lc' ds'. - msPerDay < tz' \<and> tz' < msPerDay \<and> (\<forall>day \<in> set ds'. datedDay day)
             \<longrightarrow> (\<exists>weeks'. groupByWeek tz' lc' ds' = Inr weeks'))"
proof -
  note b = groupByWeek_buckets[OF assms]
  have 1: "distinct (map sunday weeks)" by (rule b(1))
  have 2: "weekDays w \<noteq> [] \<and> weekDays w = filter (\<lambda>day. weekKey tz day = Inr (sunday w)) ds"
    if "w \<in> set weeks" for w
    using b(2)[OF that] unfolding keyed_def by blast
  have 3: "\<exists>w \<in> set weeks. weekKey tz day = Inr (sunday w) \<and> day \<in> set (weekDays w)"
    if "day \<in> set ds" for day
  proof -
    from b(3)[OF that] obtain w where w: "w \<in> set weeks" "weekKey tz day = Inr (sunday w)"
      by blast
    then have "day \<in> set (weekDays w)" using 2[OF w(1)] that by simp
    with w show ?thesis by blast
  qed
  have 4: "sorted_wrt (\<lambda>a b. sunday b \<le> sunday a) weeks" if "agreesOn lc (sunday ` set weeks)"
    using b(4)[OF that] .
  have 5: "getWeekSunday tz' s
           = Inr (take 10 (isoDate (N - weekDay N - (if 0 < tz' then 1 else 0))))"
    if "dateNumber s = Some N \<and> - msPerDay < tz' \<and> tz' < msPerDay" for s N tz'
    using getWeekSunday_key[of s N tz'] that by blast
  have 6: "getWeekSunday tz' s2 = getWeekSunday tz' s1"
    if "dateNumber s1 = Some N \<and> dateNumber s2 = Some (N + 6) \<and> weekDay N = 0
        \<and> - msPerDay < tz' \<and> tz' < msPerDay" for s1 s2 N tz'
    using saturday_with_sunday[of s1 N s2 tz'] that by blast
  have 7: "\<exists>weeks'. groupByWeek tz' lc' ds' = Inr weeks'"
    if "- msPerDay < tz' \<and> tz' < msPerDay \<and> (\<forall>day \<in> set ds'. datedDay day)"
    for tz' and lc' :: "string \<Rightarrow> string \<Rightarrow> int" and ds'
  proof -
    from that weekLoop_total[of tz' ds' "[]"] obtain ws where "weekLoop tz' ds' [] = Inr ws"
      by blast
    then show ?thesis by (simp add: groupByWeek_def)
  qed
  show ?thesis
  proof (intro conjI ballI allI impI)
    show "distinct (map sunday weeks)" by (rule 1)
  next
    fix w assume "w \<in> set weeks"
    then show "weekDays w \<noteq> []" using 2 by blast
  next
    fix w assume "w \<in> set weeks"
    then show "weekDays w = filter (\<lambda>day. weekKey tz day = Inr (sunday w)) ds" using 2 by blast
  next
    fix day assume "day \<in> set ds"
    then show "\<exists>w \<in> set weeks. weekKey tz day = Inr (sunday w) \<and> day \<in> set (weekDays w)"
      by (rule 3)
  next
    assume "agreesOn lc (sunday ` set weeks)"
    then show "sorted_wrt (\<lambda>a b. sunday b \<le> sunday a) weeks" by (rule 4)
  next
    fix s N tz'
    assume "dateNumber s = Some N \<and> - msPerDay < tz' \<and> tz' < msPerDay"
    then show "getWeekSunday tz' s
           = Inr (take 10 (isoDate (N - weekDay N - (if 0 < tz' then 1 else 0))))"
      by (rule 5)
  next
    fix s1 s2 N tz'
    assume "dateNumber s1 = Some N \<and> dateNumber s2 = Some (N + 6) \<and> weekDay N = 0
        \<and> - msPerDay < tz' \<and> tz' < msPerDay"
    then show "getWeekSunday tz' s2 = getWeekSunday tz' s1" by (rule 6)
  next
    fix tz' and lc' :: "string \<Rightarrow> string \<Rightarrow> int" and ds'
    assume "- msPerDay < tz' \<and> tz' < msPerDay \<and> (\<forall>day \<in> set ds'. datedDay day)"
    then show "\<exists>weeks'. groupByWeek tz' lc' ds' = Inr weeks'" by (rule 7)
  qed
qed

theorem week_bucketing_witness:
  "groupByWeek tzSanDiego codeUnitCompare [mondayNextDay, saturdayDay, sundayDay]
     = Inr [\<lparr>sunday = ''2025-06-22'', weekDays = [mondayNextDay]\<rparr>,
            \<lparr>sunday = ''2025-06-15'', weekDays = [saturdayDay, sundayDay]\<rparr>]
   \<and> distinct (map sunday [\<lparr>sunday = ''2025-06-22'', weekDays = [mondayNextDay]\<rparr>,
                            \<lparr>sunday = ''2025-06-15'', weekDays = [saturdayDay, sundayDay]\<rparr>])
   \<and> sorted_wrt (\<lambda>a b. sunday b \<le> sunday a)
        [\<lparr>sunday = ''2025-06-22'', weekDays = [mondayNextDay]\<rparr>,
         \<lparr>sunday = ''2025-06-15'', weekDays = [saturdayDay, sundayDay]\<rparr>]
   \<and> getWeekSunday tzSanDiego ''2025-06-15'' = Inr ''2025-06-15''
   \<and> getWeekSunday tzSanDiego ''2025-06-21'' = Inr ''2025-06-15''"
proof -
  have g: "groupByWeek tzSanDiego codeUnitCompare [mondayNextDay, saturdayDay, sundayDay]
     = Inr [\<lparr>sunday = ''2025-06-22'', weekDays = [mondayNextDay]\<rparr>,
            \<lparr>sunday = ''2025-06-15'', weekDays = [saturdayDay, sundayDay]\<rparr>]"
    by (simp add: groupByWeek_def weekKey_samples addToWeek_def sortBy_def codeUnitCompare_def)
  from week_bucketing[OF g] codeUnitCompare_agrees g getWeekSunday_samples(1,2)
  show ?thesis by blast
qed

end
